theory Spec2Isabelle
  imports Main "HOL-Library.AList"
begin

section \<open>JavaScript values\<close>

text \<open>
  The store and its schema engine are written against \<^verbatim>\<open>any\<close>: every argument is a
  dynamically typed JavaScript value. Values are modelled as trees. \<open>Num\<close> holds an
  integer-valued number, and the model is exact on the safe integers; \<open>NaN\<close> is the
  one non-number the code tests for. \<open>Fun\<close> is a function object, named by its
  identity. \<open>DateV\<close> and \<open>Moment\<close> are the two temporal objects the store knows,
  each with its instant in milliseconds. An object is the list of its own enumerable
  properties in the order \<^verbatim>\<open>for ... in\<close> visits them. Strings are ASCII.
\<close>

datatype jsval =
    Undefined
  | Null
  | Bool bool
  | Num int
  | NaN
  | Str string
  | Arr "jsval list"
  | Obj "(string \<times> jsval) list"
  | Fun nat
  | DateV int
  | Moment int

text \<open>
  What a call raises, by the class of the object thrown, which is what a caller tells
  apart with \<^verbatim>\<open>instanceof\<close>: \<open>TypeError\<close> is raised by the language itself (a
  property read on \<^verbatim>\<open>null\<close> or \<^verbatim>\<open>undefined\<close>, a call of something that is no
  function); \<open>Error msg\<close> is \<^verbatim>\<open>throw new Error(msg)\<close> of the source;
  \<open>RangeError msg\<close> is an instance of the built-in class \<^verbatim>\<open>RangeError\<close>.
\<close>

datatype error = TypeError | RangeError string | Error string

fun isRangeError :: "error \<Rightarrow> bool" where
  "isRangeError (RangeError msg) = True"
| "isRangeError e = False"

type_synonym 'a result = "error + 'a"

definition bindR :: "'a result \<Rightarrow> ('a \<Rightarrow> 'b result) \<Rightarrow> 'b result" where
  "bindR m f = (case m of Inl e \<Rightarrow> Inl e | Inr x \<Rightarrow> f x)"

text \<open>
  The host: what the JavaScript engine and the libraries (lodash, moment, extend) do
  outside the repository and outside the fragment of values modelled here. Every
  function of the source that reaches one of them takes the host as a parameter.
\<close>

record host =
  hostToString :: "jsval \<Rightarrow> string"
  hostToNumber :: "jsval \<Rightarrow> jsval"
  hostLess :: "jsval \<Rightarrow> jsval \<Rightarrow> bool"
  hostCall :: "nat \<Rightarrow> jsval list \<Rightarrow> jsval result"
  hostNew :: "nat \<Rightarrow> jsval list \<Rightarrow> jsval result"
  hostParseFloat :: "jsval \<Rightarrow> jsval"
  hostParseInt :: "string \<Rightarrow> jsval"
  hostMoment :: "bool \<Rightarrow> jsval \<Rightarrow> jsval \<Rightarrow> int option"
  hostMomentFormat :: "int \<Rightarrow> string \<Rightarrow> string"
  lodashMerge :: "jsval \<Rightarrow> jsval \<Rightarrow> jsval"

fun typeof :: "jsval \<Rightarrow> string" where
  "typeof Undefined = ''undefined''"
| "typeof Null = ''object''"
| "typeof (Bool b) = ''boolean''"
| "typeof (Num n) = ''number''"
| "typeof NaN = ''number''"
| "typeof (Str s) = ''string''"
| "typeof (Arr xs) = ''object''"
| "typeof (Obj fs) = ''object''"
| "typeof (Fun f) = ''function''"
| "typeof (DateV t) = ''object''"
| "typeof (Moment t) = ''object''"

fun isArray :: "jsval \<Rightarrow> bool" where
  "isArray (Arr xs) = True"
| "isArray v = False"

fun isNaN :: "jsval \<Rightarrow> bool" where
  "isNaN NaN = True"
| "isNaN v = False"

fun truthy :: "jsval \<Rightarrow> bool" where
  "truthy Undefined = False"
| "truthy Null = False"
| "truthy (Bool b) = b"
| "truthy (Num n) = (n \<noteq> 0)"
| "truthy NaN = False"
| "truthy (Str s) = (s \<noteq> [])"
| "truthy v = True"

fun primitive :: "jsval \<Rightarrow> bool" where
  "primitive (Arr xs) = False"
| "primitive (Obj fs) = False"
| "primitive (Fun f) = False"
| "primitive (DateV t) = False"
| "primitive (Moment t) = False"
| "primitive v = True"

text \<open>
  Strict equality \<^verbatim>\<open>===\<close>. Primitives compare by value and \<open>NaN\<close> equals nothing;
  functions compare by identity. Two object values are two references: the tree model
  cannot tell whether they are the same one, and answers no. The answer is exact as
  soon as one side is a primitive, which is how the source uses it everywhere but on
  identity keys.
\<close>

fun strictEq :: "jsval \<Rightarrow> jsval \<Rightarrow> bool" where
  "strictEq NaN w = False"
| "strictEq v NaN = False"
| "strictEq (Fun f) (Fun g) = (f = g)"
| "strictEq v w = (primitive v \<and> primitive w \<and> v = w)"

subsection \<open>Strings and numbers\<close>

definition isLetter :: "char \<Rightarrow> bool" where
  "isLetter c = (let n = (of_char c :: nat) in (65 \<le> n \<and> n \<le> 90) \<or> (97 \<le> n \<and> n \<le> 122))"

definition isDigit :: "char \<Rightarrow> bool" where
  "isDigit c = (let n = (of_char c :: nat) in 48 \<le> n \<and> n \<le> 57)"

definition isHexDigit :: "char \<Rightarrow> bool" where
  "isHexDigit c = (let n = (of_char c :: nat) in
     (48 \<le> n \<and> n \<le> 57) \<or> (65 \<le> n \<and> n \<le> 70) \<or> (97 \<le> n \<and> n \<le> 102))"

definition isSpace :: "char \<Rightarrow> bool" where
  "isSpace c = (let n = (of_char c :: nat) in (9 \<le> n \<and> n \<le> 13) \<or> n = 32)"

definition digitValue :: "char \<Rightarrow> int" where
  "digitValue c = (let n = (of_char c :: nat) in
     if n \<le> 57 then int n - 48 else if n \<le> 70 then int n - 55 else int n - 87)"

definition digitsValue :: "int \<Rightarrow> string \<Rightarrow> int" where
  "digitsValue radix ds = foldl (\<lambda>acc c. acc * radix + digitValue c) 0 ds"

text \<open>
  The safe integers, \<^verbatim>\<open>Number.isSafeInteger\<close>: the integers a JavaScript number
  holds exactly and prints digit by digit. Outside them a number is rounded to the
  nearest double and may print in exponent notation; reading and printing such a
  number is left to the host.
\<close>

definition safeInteger :: "int \<Rightarrow> bool" where
  "safeInteger n = (- 9007199254740991 \<le> n \<and> n \<le> 9007199254740991)"

text \<open>
  \<^verbatim>\<open>parseInt(s)\<close> on a string, no radix given: leading white space is skipped, a sign
  is read, \<^verbatim>\<open>0x\<close> switches to base 16, and the longest run of digits is the
  integer read; no digit at all gives \<open>NaN\<close>. \<open>readInteger\<close> is that mathematical
  integer; \<open>parseIntString\<close> is the number returned for it.
\<close>

definition parseIntDigits :: "int \<Rightarrow> string \<Rightarrow> jsval" where
  "parseIntDigits sign s =
     (if take 2 s = ''0x'' \<or> take 2 s = ''0X'' then
        (let z = takeWhile isHexDigit (drop 2 s)
         in if z = [] then NaN else Num (sign * digitsValue 16 z))
      else
        (let z = takeWhile isDigit s
         in if z = [] then NaN else Num (sign * digitsValue 10 z)))"

definition readInteger :: "string \<Rightarrow> jsval" where
  "readInteger s =
     (let t = dropWhile isSpace s in
      case t of
        [] \<Rightarrow> NaN
      | c # rest \<Rightarrow>
          if c = CHR ''-'' then parseIntDigits (- 1) rest
          else if c = CHR ''+'' then parseIntDigits 1 rest
          else parseIntDigits 1 t)"

definition parseIntString :: "host \<Rightarrow> string \<Rightarrow> jsval" where
  "parseIntString h s =
     (case readInteger s of
        Num n \<Rightarrow> if safeInteger n then Num n else hostParseInt h s
      | v \<Rightarrow> v)"

fun showNat :: "nat \<Rightarrow> string" where
  "showNat n = (if n < 10 then [char_of (48 + n)] else showNat (n div 10) @ [char_of (48 + n mod 10)])"

definition showInt :: "int \<Rightarrow> string" where
  "showInt i = (if i < 0 then CHR ''-'' # showNat (nat (- i)) else showNat (nat i))"

fun joinComma :: "string list \<Rightarrow> string" where
  "joinComma [] = []"
| "joinComma [s] = s"
| "joinComma (s # t # ss) = s @ '','' @ joinComma (t # ss)"

text \<open>
  \<^verbatim>\<open>String(v)\<close>. An array is its elements joined by commas, \<^verbatim>\<open>null\<close> and
  \<^verbatim>\<open>undefined\<close> elements as the empty string. A safe integer prints as its decimal
  numeral. What an object, a function, a temporal value or a number beyond the safe
  integers prints is the host's.
\<close>

fun toString :: "host \<Rightarrow> jsval \<Rightarrow> string" where
  "toString h Undefined = ''undefined''"
| "toString h Null = ''null''"
| "toString h (Bool b) = (if b then ''true'' else ''false'')"
| "toString h (Num n) = (if safeInteger n then showInt n else hostToString h (Num n))"
| "toString h NaN = ''NaN''"
| "toString h (Str s) = s"
| "toString h (Arr xs) =
     joinComma (map (\<lambda>x. if x = Undefined \<or> x = Null then [] else toString h x) xs)"
| "toString h v = hostToString h v"

text \<open>
  \<^verbatim>\<open>parseInt(v)\<close> on any value: the value is converted to a string and the string is
  read.
\<close>

definition parseInt :: "host \<Rightarrow> jsval \<Rightarrow> jsval" where
  "parseInt h v = parseIntString h (toString h v)"

text \<open>\<^verbatim>\<open>ToNumber\<close>, for the comparison \<^verbatim>\<open><\<close>.\<close>

fun toNumber :: "host \<Rightarrow> jsval \<Rightarrow> jsval" where
  "toNumber h Undefined = NaN"
| "toNumber h Null = Num 0"
| "toNumber h (Bool b) = Num (if b then 1 else 0)"
| "toNumber h (Num n) = Num n"
| "toNumber h NaN = NaN"
| "toNumber h v = hostToNumber h v"

definition numLess :: "jsval \<Rightarrow> jsval \<Rightarrow> bool" where
  "numLess a b = (case (a, b) of (Num x, Num y) \<Rightarrow> x < y | _ \<Rightarrow> False)"

text \<open>
  \<^verbatim>\<open>a < b\<close>: two strings compare as strings; an object operand is first made
  primitive, which is the host's; otherwise both sides become numbers, and a
  comparison with \<open>NaN\<close> is false.
\<close>

definition jsLess :: "host \<Rightarrow> jsval \<Rightarrow> jsval \<Rightarrow> bool" where
  "jsLess h a b =
     (if \<not> primitive a \<or> \<not> primitive b then hostLess h a b
      else case (a, b) of
        (Str s, Str t) \<Rightarrow> hostLess h a b
      | _ \<Rightarrow> numLess (toNumber h a) (toNumber h b))"

subsection \<open>Properties\<close>

fun indexKeys :: "nat \<Rightarrow> nat \<Rightarrow> string list" where
  "indexKeys i 0 = []"
| "indexKeys i (Suc n) = showNat i # indexKeys (Suc i) n"

text \<open>
  \<^verbatim>\<open>v[k]\<close>: reading a property of \<^verbatim>\<open>null\<close> or \<^verbatim>\<open>undefined\<close> raises; an object
  answers with its own property or \<^verbatim>\<open>undefined\<close>; an array and a string answer to
  \<^verbatim>\<open>length\<close> and to their indices. Inherited properties are not modelled.
\<close>

definition getIndex :: "jsval list \<Rightarrow> string \<Rightarrow> jsval" where
  "getIndex xs k = (case map_of (zip (indexKeys 0 (length xs)) xs) k of None \<Rightarrow> Undefined | Some v \<Rightarrow> v)"

fun getProp :: "jsval \<Rightarrow> string \<Rightarrow> jsval result" where
  "getProp Undefined k = Inl TypeError"
| "getProp Null k = Inl TypeError"
| "getProp (Obj fs) k = Inr (case map_of fs k of None \<Rightarrow> Undefined | Some v \<Rightarrow> v)"
| "getProp (Arr xs) k = Inr (if k = ''length'' then Num (int (length xs)) else getIndex xs k)"
| "getProp (Str s) k =
     Inr (if k = ''length'' then Num (int (length s)) else getIndex (map (\<lambda>c. Str [c]) s) k)"
| "getProp v k = Inr Undefined"

text \<open>The keys \<^verbatim>\<open>for (k in v)\<close> visits.\<close>

fun forInKeys :: "jsval \<Rightarrow> string list" where
  "forInKeys (Obj fs) = map fst fs"
| "forInKeys (Arr xs) = indexKeys 0 (length xs)"
| "forInKeys (Str s) = indexKeys 0 (length s)"
| "forInKeys v = []"

section \<open>Schema engine: sanitizers of scalar fields\<close>

text \<open>
  \<^verbatim>\<open>value.replace(/[a-zA-Z]+/gi, '')\<close>: every ASCII letter is removed.
\<close>

definition replaceLetters :: "string \<Rightarrow> string" where
  "replaceLetters s = filter (\<lambda>c. \<not> isLetter c) s"

text \<open>The fifty-two ASCII letters, written out.\<close>

definition asciiLetters :: string where
  "asciiLetters = ''abcdefghijklmnopqrstuvwxyzABCDEFGHIJKLMNOPQRSTUVWXYZ''"

definition belowMinimumInteger :: string where
  "belowMinimumInteger = ''Provided value cannot be sanitized, value is below minimum integer allowed''"

definition aboveMaximumInteger :: string where
  "aboveMaximumInteger = ''Provided value cannot be sanitized, value is greater than maximum integer allowed''"

text \<open>
  \<^verbatim>\<open>sanitizeInteger(value, schemaConfig)\<close>. A string loses its letters and, when
  nothing is left, the empty string is returned at once. Otherwise the value goes
  through \<^verbatim>\<open>parseInt\<close>, is checked against \<^verbatim>\<open>min\<close> and \<^verbatim>\<open>max\<close> where the
  configuration defines them, and \<open>NaN\<close> becomes the empty string.
\<close>

definition sanitizeIntegerRange :: "host \<Rightarrow> jsval \<Rightarrow> jsval \<Rightarrow> jsval result" where
  "sanitizeIntegerRange h v schemaConfig =
     bindR (getProp schemaConfig ''min'') (\<lambda>mn.
       if typeof mn \<noteq> ''undefined'' \<and> jsLess h v mn then Inl (Error belowMinimumInteger)
       else bindR (getProp schemaConfig ''max'') (\<lambda>mx.
         if typeof mx \<noteq> ''undefined'' \<and> jsLess h mx v then Inl (Error aboveMaximumInteger)
         else if isNaN v then Inr (Str [])
         else Inr v))"

fun sanitizeInteger :: "host \<Rightarrow> jsval \<Rightarrow> jsval \<Rightarrow> jsval result" where
  "sanitizeInteger h (Str s) schemaConfig =
     (let value = replaceLetters s in
      if length value = 0 then Inr (Str [])
      else sanitizeIntegerRange h (parseInt h (Str value)) schemaConfig)"
| "sanitizeInteger h value schemaConfig = sanitizeIntegerRange h (parseInt h value) schemaConfig"

text \<open>A call that fails with a \<^verbatim>\<open>RangeError\<close>: what it throws is an instance of that class.\<close>

definition failsWithRangeError :: "'a result \<Rightarrow> bool" where
  "failsWithRangeError r = (case r of Inl e \<Rightarrow> isRangeError e | Inr v \<Rightarrow> False)"


section \<open>Library functions on values\<close>

text \<open>
  \<^verbatim>\<open>v[k] = w\<close> in strict mode: on \<^verbatim>\<open>null\<close>, \<^verbatim>\<open>undefined\<close> and on a primitive it
  raises; on an object it replaces the property where it stands or appends it; on an
  array it replaces the element under an index or extends the array up to it. Own
  properties of functions and temporal objects, and named properties of arrays, are
  not modelled.
\<close>

definition arrayIndex :: "string \<Rightarrow> nat option" where
  "arrayIndex k =
     (if k \<noteq> [] \<and> list_all isDigit k \<and> showNat (nat (digitsValue 10 k)) = k
      then Some (nat (digitsValue 10 k)) else None)"

definition setIndex :: "jsval list \<Rightarrow> string \<Rightarrow> jsval \<Rightarrow> jsval list" where
  "setIndex xs k w =
     (case arrayIndex k of
        None \<Rightarrow> xs
      | Some i \<Rightarrow> if i < length xs then xs[i := w]
                  else xs @ replicate (i - length xs) Undefined @ [w])"

fun setProp :: "jsval \<Rightarrow> string \<Rightarrow> jsval \<Rightarrow> jsval result" where
  "setProp (Obj fs) k w = Inr (Obj (AList.update k w fs))"
| "setProp (Arr xs) k w = Inr (Arr (setIndex xs k w))"
| "setProp (Fun f) k w = Inr (Fun f)"
| "setProp (DateV t) k w = Inr (DateV t)"
| "setProp (Moment t) k w = Inr (Moment t)"
| "setProp v k w = Inl TypeError"

text \<open>
  lodash \<^verbatim>\<open>assign(target, source)\<close>: the own enumerable properties of the source are
  written onto the target, one after the other.
\<close>

definition assign :: "jsval \<Rightarrow> jsval \<Rightarrow> jsval" where
  "assign target source =
     foldl (\<lambda>t k. case getProp source k of
                     Inl e \<Rightarrow> t
                   | Inr w \<Rightarrow> (case setProp t k w of Inl e \<Rightarrow> t | Inr t' \<Rightarrow> t'))
       target (forInKeys source)"

text \<open>
  lodash \<^verbatim>\<open>cloneDeepWith(value, customizer)\<close> on trees: where the customizer answers,
  its answer is the clone; otherwise arrays and plain objects are rebuilt element by
  element, and everything else is kept as it is. A function on its own clones to an
  empty object. On trees the copy and the original are the same value; what the copy
  shares with the original is the subject of the reference model further below.
\<close>

fun cloneDeepWithIn :: "(jsval \<Rightarrow> jsval option) \<Rightarrow> jsval \<Rightarrow> jsval" where
  "cloneDeepWithIn customizer v =
     (case customizer v of
        Some r \<Rightarrow> r
      | None \<Rightarrow>
         (case v of
            Arr xs \<Rightarrow> Arr (map (cloneDeepWithIn customizer) xs)
          | Obj fs \<Rightarrow> Obj (map (\<lambda>(k, x). (k, cloneDeepWithIn customizer x)) fs)
          | _ \<Rightarrow> v))"

definition cloneDeepWith :: "jsval \<Rightarrow> (jsval \<Rightarrow> jsval option) \<Rightarrow> jsval" where
  "cloneDeepWith v customizer =
     (case customizer v of
        Some r \<Rightarrow> r
      | None \<Rightarrow> (case v of Fun f \<Rightarrow> Obj [] | _ \<Rightarrow> cloneDeepWithIn customizer v))"

section \<open>The store\<close>

text \<open>
  A listener is a callback of the caller's. It is known by its identity, and it may
  call back into the store while it is being notified: \<open>reentries\<close> lists the
  \<^verbatim>\<open>stateChange\<close> calls it makes, in order. A callback that only reads what it is
  given has none.
\<close>

datatype reentry = StateChange string jsval

datatype listener = Listener (listenerId: nat) (reentries: "reentry list")

datatype consoleEntry = Warn string "jsval list" | Debug string "jsval list"

text \<open>
  The fields of \<^verbatim>\<open>Store<T>\<close>, the private \<^verbatim>\<open>_nextState\<close> as \<open>draftNextState\<close>,
  followed by what the store does to the world around it: lines written to the
  console, flushes requested from the store manager, actions dispatched on the action
  manager, and the calls made to listeners, each with the two states it was given.
\<close>

record store =
  uuid :: string
  state :: jsval
  stateHistory :: "(string \<times> jsval) list"
  listeners :: "listener list"
  dirtyState :: bool
  draftNextState :: jsval
  debug :: bool
  pendingActions :: "string list"
  console :: "consoleEntry list"
  flushRequests :: nat
  dispatched :: "(string \<times> jsval list) list"
  listenerCalls :: "(nat \<times> jsval \<times> jsval) list"

definition ACTION_SEED :: string where
  "ACTION_SEED = ''__STORE_STATE_SEED__''"

text \<open>
  Modelled from the spec: \<^verbatim>\<open>StoreManager.queueFlush(store)\<close>; the store manager
  (\<^verbatim>\<open>./store-manager\<close>) is not among the sources. The spec has it schedule one flush
  of the store; when that flush runs is its scheduling policy. Here the request is
  counted, and the flush is the separate step \<open>flush\<close>.
\<close>

definition queueFlush :: "store \<Rightarrow> store" where
  "queueFlush s = s\<lparr>flushRequests := flushRequests s + 1\<rparr>"

text \<open>
  Modelled from the spec: \<^verbatim>\<open>ActionManager.dispatch(name, args)\<close>; the action manager
  (\<^verbatim>\<open>./actions/manager\<close>) is not among the sources. The spec has it deliver the
  arguments under the action's name; the delivery is recorded.
\<close>

definition dispatch :: "string \<Rightarrow> jsval list \<Rightarrow> store \<Rightarrow> store" where
  "dispatch name args s = s\<lparr>dispatched := dispatched s @ [(name, args)]\<rparr>"

definition consoleWarn :: "string \<Rightarrow> jsval list \<Rightarrow> store \<Rightarrow> store" where
  "consoleWarn msg args s = s\<lparr>console := console s @ [Warn msg args]\<rparr>"

definition consoleDebug :: "string \<Rightarrow> jsval list \<Rightarrow> store \<Rightarrow> store" where
  "consoleDebug msg args s = s\<lparr>console := console s @ [Debug msg args]\<rparr>"

definition isDirty :: "store \<Rightarrow> bool" where
  "isDirty s = dirtyState s"

definition getState :: "store \<Rightarrow> jsval" where
  "getState s = state s"

text \<open>
  A store as the constructor and the field initialisers leave it; a subclass then sets
  its state.
\<close>

definition newStore :: "string \<Rightarrow> store" where
  "newStore u = \<lparr> uuid = u, state = Null, stateHistory = [], listeners = [], dirtyState = False,
                  draftNextState = Null, debug = False, pendingActions = [], console = [],
                  flushRequests = 0, dispatched = [], listenerCalls = [] \<rparr>"

subsection \<open>Listeners\<close>

text \<open>
  \<^verbatim>\<open>listen(callback)\<close> returns what \<^verbatim>\<open>Array.prototype.push\<close> returns: the new
  length of the listener array.
\<close>

definition listen :: "listener \<Rightarrow> store \<Rightarrow> int \<times> store" where
  "listen callback s =
     (let ls = listeners s @ [callback] in (int (length ls), s\<lparr>listeners := ls\<rparr>))"

text \<open>\<^verbatim>\<open>listeners.indexOf(callback)\<close>: the first position holding that function, or -1.\<close>

fun indexOfFrom :: "int \<Rightarrow> listener list \<Rightarrow> listener \<Rightarrow> int" where
  "indexOfFrom i [] callback = - 1"
| "indexOfFrom i (l # ls) callback =
     (if listenerId l = listenerId callback then i else indexOfFrom (i + 1) ls callback)"

definition indexOf :: "listener list \<Rightarrow> listener \<Rightarrow> int" where
  "indexOf ls callback = indexOfFrom 0 ls callback"

text \<open>\<^verbatim>\<open>xs.splice(index, 1)\<close> for \<open>index \<ge> 0\<close>: past the end nothing is removed.\<close>

definition splice1 :: "int \<Rightarrow> 'a list \<Rightarrow> 'a list" where
  "splice1 index xs = take (nat index) xs @ drop (nat index + 1) xs"

datatype ignoreArg = ByCallback listener | ByHandle int

definition ignore :: "ignoreArg \<Rightarrow> store \<Rightarrow> bool \<times> store" where
  "ignore callback s =
     (let index = (case callback of
                     ByCallback f \<Rightarrow> indexOf (listeners s) f
                   | ByHandle n \<Rightarrow> n - 1)
      in if index \<ge> 0 then (True, s\<lparr>listeners := splice1 index (listeners s)\<rparr>)
         else (False, s))"

subsection \<open>State changes, flush and notification\<close>

definition stateChange :: "string \<Rightarrow> jsval \<Rightarrow> store \<Rightarrow> store" where
  "stateChange actionName nextState s =
     (let s1 = (if debug s then consoleDebug (actionName @ '' dispatched'') [nextState] s else s);
          s2 = s1\<lparr>pendingActions := pendingActions s1 @ [actionName], draftNextState := nextState\<rparr>
      in if \<not> dirtyState s2 then queueFlush (s2\<lparr>dirtyState := True\<rparr>) else s2)"

text \<open>
  One listener is called with the committed state and the old state; the calls it
  makes back into the store run before it returns.
\<close>

definition runReentry :: "store \<Rightarrow> reentry \<Rightarrow> store" where
  "runReentry s r = (case r of StateChange actionName nextState \<Rightarrow> stateChange actionName nextState s)"

definition callListener :: "jsval \<Rightarrow> store \<Rightarrow> listener \<Rightarrow> store" where
  "callListener oldState s l =
     foldl runReentry
       (s\<lparr>listenerCalls := listenerCalls s @ [(listenerId l, state s, oldState)]\<rparr>)
       (reentries l)"

definition notify :: "jsval \<Rightarrow> store \<Rightarrow> store" where
  "notify oldState s =
     (let s1 = (if debug s
                then consoleDebug (''Store state changed, notifying '' @ showNat (length (listeners s))
                                     @ '' listener(s) of change'')
                       [Str ''Old State'', oldState, Str ''New State'', state s] s
                else s);
          s2 = foldl (callListener oldState) s1 (listeners s1)
      in s2\<lparr>dirtyState := False\<rparr>)"

definition flush :: "store \<Rightarrow> store" where
  "flush s =
     (let oldState = assign (Obj []) (state s);
          s1 = s\<lparr>state := draftNextState s, draftNextState := Null\<rparr>;
          s2 = (if debug s1
                then s1\<lparr>stateHistory := stateHistory s1 @ [(joinComma (pendingActions s1), oldState)]\<rparr>
                else s1)
      in notify oldState s2)"

subsection \<open>The draft\<close>

text \<open>
  The customizer of \<^verbatim>\<open>cloneState\<close>: a moment is cloned by its own \<^verbatim>\<open>clone()\<close>, a
  \<^verbatim>\<open>Date\<close> by a new \<^verbatim>\<open>Date\<close> of the same time, and for anything else the customizer
  returns \<^verbatim>\<open>undefined\<close> and leaves the cloning to lodash.
\<close>

fun cloneCustomizer :: "jsval \<Rightarrow> jsval option" where
  "cloneCustomizer (Moment t) = Some (Moment t)"
| "cloneCustomizer (DateV t) = Some (DateV t)"
| "cloneCustomizer v = None"

definition cloneState :: "store \<Rightarrow> jsval" where
  "cloneState s = cloneDeepWith (state s) cloneCustomizer"

definition nextState :: "store \<Rightarrow> jsval \<times> store" where
  "nextState s =
     (if truthy (draftNextState s) then (draftNextState s, s)
      else (let c = cloneState s in (c, s\<lparr>draftNextState := c\<rparr>)))"

definition newState :: "store \<Rightarrow> jsval \<times> store" where
  "newState s = nextState s"

subsection \<open>Seeding\<close>

text \<open>\<^verbatim>\<open>value.concat(newValue)\<close> on two arrays.\<close>

fun concatArrays :: "jsval \<Rightarrow> jsval \<Rightarrow> jsval" where
  "concatArrays (Arr xs) (Arr ys) = Arr (xs @ ys)"
| "concatArrays v w = v"

text \<open>
  The loop of \<^verbatim>\<open>seed\<close> over the keys of the draft. It ends in one of three ways: it
  runs through all keys (\<open>True\<close>), it meets a key the payload does not define and
  returns from \<^verbatim>\<open>seed\<close> (\<open>False\<close>), or a property read raises. The draft is changed in
  place, so the draft as it stands is part of every ending.
\<close>

fun seedLoop :: "jsval \<Rightarrow> string list \<Rightarrow> jsval \<Rightarrow> bool result \<times> jsval" where
  "seedLoop payloadState [] draft = (Inr True, draft)"
| "seedLoop payloadState (key # keys) draft =
     (case getProp draft key of
        Inl e \<Rightarrow> (Inl e, draft)
      | Inr v \<Rightarrow>
         (case getProp payloadState key of
            Inl e \<Rightarrow> (Inl e, draft)
          | Inr newValue \<Rightarrow>
              if typeof newValue = ''undefined'' then (Inr False, draft)
              else if isArray v \<and> isArray newValue then
                (case setProp draft key (concatArrays v newValue) of
                   Inl e \<Rightarrow> (Inl e, draft)
                 | Inr draft' \<Rightarrow> seedLoop payloadState keys draft')
              else if typeof v = ''undefined'' then
                (case setProp draft key newValue of
                   Inl e \<Rightarrow> (Inl e, draft)
                 | Inr draft' \<Rightarrow> seedLoop payloadState keys draft')
              else seedLoop payloadState keys draft))"

text \<open>
  \<^verbatim>\<open>seed(partialState)\<close>: the result says whether the call returned or what it
  raised, and the store is the store as the call left it.
\<close>

definition seed :: "jsval \<Rightarrow> store \<Rightarrow> unit result \<times> store" where
  "seed partialState s =
     (if typeof partialState \<noteq> ''object'' then
        (Inr (), consoleWarn ''Invalid object supplied to store seed: '' [partialState] s)
      else case getProp partialState ''state'' of
        Inl e \<Rightarrow> (Inl e, s)
      | Inr payloadState \<Rightarrow>
          if typeof payloadState \<noteq> ''object'' then
            (Inr (), consoleWarn ''Invalid object supplied to store seed: '' [partialState] s)
          else
            (let (draft, s1) = nextState s in
             case seedLoop payloadState (forInKeys draft) draft of
               (Inl e, draft') \<Rightarrow> (Inl e, s1\<lparr>draftNextState := draft'\<rparr>)
             | (Inr False, draft') \<Rightarrow> (Inr (), s1\<lparr>draftNextState := draft'\<rparr>)
             | (Inr True, draft') \<Rightarrow>
                 (Inr (), dispatch (ACTION_SEED @ ''_'' @ uuid s) [draft']
                            (s1\<lparr>draftNextState := draft'\<rparr>))))"

section \<open>Keyed collection helpers\<close>

text \<open>
  \<^verbatim>\<open>merge(obj1, obj2)\<close> of the store: lodash merges the second object into the
  first, and the first is returned.
\<close>

definition merge :: "host \<Rightarrow> jsval \<Rightarrow> jsval \<Rightarrow> jsval" where
  "merge h obj1 obj2 = (if primitive obj1 then obj1 else lodashMerge h obj1 obj2)"

text \<open>The scan for an element whose \<^verbatim>\<open>__bID\<close> is the key.\<close>

fun findExisting :: "nat \<Rightarrow> jsval list \<Rightarrow> jsval \<Rightarrow> nat option result" where
  "findExisting i [] keyValue = Inr None"
| "findExisting i (x # xs) keyValue =
     (case getProp x ''__bID'' of
        Inl e \<Rightarrow> Inl e
      | Inr b \<Rightarrow> if strictEq b keyValue then Inr (Some i) else findExisting (Suc i) xs keyValue)"

text \<open>
  What a call of \<^verbatim>\<open>upsertItem\<close> leaves behind: what it returned or raised, the
  warnings it wrote to the console, and the caller's collection and item as they are
  after the call (both are changed in place).
\<close>

record upsertResult =
  returned :: "bool result"
  warnings :: "consoleEntry list"
  collection :: jsval
  item :: jsval

definition upsertItem :: "host \<Rightarrow> jsval \<Rightarrow> jsval \<Rightarrow> jsval \<Rightarrow> bool \<Rightarrow> upsertResult" where
  "upsertItem h modelArray keyValue newItem overwrite =
     (let nonArray = (typeof modelArray = ''undefined'' \<or> \<not> isArray modelArray);
          w = (if nonArray then [Warn ''Non array passed in as modelArray'' []] else []);
          elems = (case modelArray of Arr xs \<Rightarrow> xs | _ \<Rightarrow> []);
          caller = (\<lambda>xs. if nonArray then modelArray else Arr xs)
      in
      if typeof newItem \<noteq> ''object'' then
        \<lparr> returned = Inr False,
          warnings = w @ [Warn ''Upserted item must be an object'' [Str (typeof newItem), Str ''given'']],
          collection = modelArray, item = newItem \<rparr>
      else case getProp newItem ''__bID'' of
        Inl e \<Rightarrow> \<lparr> returned = Inl e, warnings = w, collection = modelArray, item = newItem \<rparr>
      | Inr bid \<Rightarrow>
          if typeof bid \<noteq> ''undefined'' \<and> \<not> strictEq bid keyValue then
            \<lparr> returned = Inr False,
              warnings = w @ [Warn ''Upserted item does not match the keyValue passed in''
                                [bid, Str ''!='', keyValue]],
              collection = modelArray, item = newItem \<rparr>
          else case findExisting 0 elems keyValue of
            Inl e \<Rightarrow> \<lparr> returned = Inl e, warnings = w, collection = modelArray, item = newItem \<rparr>
          | Inr None \<Rightarrow>
              (case setProp newItem ''__bID'' keyValue of
                 Inl e \<Rightarrow> \<lparr> returned = Inl e, warnings = w, collection = modelArray, item = newItem \<rparr>
               | Inr stamped \<Rightarrow>
                   \<lparr> returned = Inr True, warnings = w,
                     collection = caller (elems @ [stamped]), item = stamped \<rparr>)
          | Inr (Some existing) \<Rightarrow>
              (let existingItem = elems ! existing;
                   m = (if overwrite then newItem else merge h existingItem newItem)
               in case setProp m ''__bID'' keyValue of
                    Inl e \<Rightarrow> \<lparr> returned = Inl e, warnings = w,
                               collection = caller (elems[existing := m]), item = newItem \<rparr>
                  | Inr stamped \<Rightarrow>
                      \<lparr> returned = Inr True, warnings = w,
                        collection = caller (elems[existing := stamped]),
                        item = (if overwrite then stamped else newItem) \<rparr>))"

section \<open>Schema engine\<close>

text \<open>
  A schema is a JavaScript object: one descriptor per field, itself an object with
  \<^verbatim>\<open>type\<close>, \<^verbatim>\<open>initial\<close>, \<^verbatim>\<open>validation\<close>, \<^verbatim>\<open>schema\<close> and the other options.
  The functions a descriptor holds (the \<^verbatim>\<open>initial\<close> and \<^verbatim>\<open>schema\<close> factories,
  validators, sanitizers, constructors) are function objects, run by the host. A
  \<^verbatim>\<open>schema\<close> factory may return a schema that holds the factory again, so
  \<^verbatim>\<open>validate\<close> and \<^verbatim>\<open>sanitize\<close> need not return: they are defined with fuel, one
  unit per nested call, and \<open>None\<close> is a computation that did not come to an end within
  its fuel.
\<close>

definition bindO :: "'a result option \<Rightarrow> ('a \<Rightarrow> 'b result option) \<Rightarrow> 'b result option" where
  "bindO m f = (case m of None \<Rightarrow> None | Some (Inl e) \<Rightarrow> Some (Inl e) | Some (Inr x) \<Rightarrow> f x)"

fun mapO :: "('a \<Rightarrow> 'b result option) \<Rightarrow> 'a list \<Rightarrow> 'b list result option" where
  "mapO f [] = Some (Inr [])"
| "mapO f (x # xs) = bindO (f x) (\<lambda>y. bindO (mapO f xs) (\<lambda>ys. Some (Inr (y # ys))))"

text \<open>\<^verbatim>\<open>f(args)\<close>: calling what is no function raises.\<close>

definition callFunction :: "host \<Rightarrow> jsval \<Rightarrow> jsval list \<Rightarrow> jsval result" where
  "callFunction h f args = (case f of Fun n \<Rightarrow> hostCall h n args | _ \<Rightarrow> Inl TypeError)"

text \<open>\<^verbatim>\<open>errors.concat(x)\<close>: an array is appended element by element, anything else as one element.\<close>

definition concatValue :: "jsval list \<Rightarrow> jsval \<Rightarrow> jsval list" where
  "concatValue errors x = (case x of Arr ys \<Rightarrow> errors @ ys | _ \<Rightarrow> errors @ [x])"

subsection \<open>validate\<close>

text \<open>
  One turn of the inner loop of \<^verbatim>\<open>validate\<close>, after its \<^verbatim>\<open>break\<close> test: the rule
  \<open>validation\<close> of the descriptor \<open>sf\<close> of \<open>field\<close>. It returns the error list and
  whether the loop is left by \<^verbatim>\<open>break\<close>. \<open>self\<close> is \<^verbatim>\<open>this.validate\<close>.
\<close>

definition validateSwitch ::
  "host \<Rightarrow> jsval \<Rightarrow> jsval \<Rightarrow> string \<Rightarrow> jsval \<Rightarrow> jsval list \<Rightarrow> jsval list result" where
  "validateSwitch h v label validation validationParameters errors =
     (if validation = ''required'' then
        (if typeof v = ''undefined'' \<or> strictEq v Null \<or> strictEq v (Str [])
         then Inr (errors @ [Str (toString h label @ '' is required'')])
         else Inr errors)
      else if validation = ''minLength'' then
        bindR (getProp v ''length'') (\<lambda>len.
          if jsLess h len validationParameters
          then Inr (errors @ [Str (toString h label @ '' must be at least ''
                                   @ toString h validationParameters @ '' characters'')])
          else Inr errors)
      else if validation = ''maxLength'' then
        bindR (getProp v ''length'') (\<lambda>len.
          if jsLess h validationParameters len
          then Inr (errors @ [Str (toString h label @ '' must be at under ''
                                   @ toString h validationParameters @ '' characters'')])
          else Inr errors)
      else if typeof validationParameters = ''function'' then
        bindR (callFunction h validationParameters [v]) (\<lambda>results.
          if \<not> strictEq results (Bool True) then Inr (concatValue errors results) else Inr errors)
      else Inr errors)"

definition validateRule ::
  "(jsval \<Rightarrow> jsval \<Rightarrow> jsval result option) \<Rightarrow> host \<Rightarrow> jsval \<Rightarrow> jsval \<Rightarrow> string \<Rightarrow> string
     \<Rightarrow> jsval list \<Rightarrow> (jsval list \<times> bool) result option" where
  "validateRule self h obj sf field validation errors =
     bindO (Some (getProp obj field)) (\<lambda>v.
     bindO (Some (bindR (getProp sf ''validation'') (\<lambda>vd. getProp vd validation))) (\<lambda>validationParameters.
     bindO (Some (getProp sf ''type'')) (\<lambda>ty.
     bindO (if strictEq ty (Str ''object'') \<and> validation = ''validate'' \<and> truthy validationParameters
            then bindO (Some (bindR (getProp sf ''schema'') (\<lambda>f. callFunction h f []))) (\<lambda>subSchema.
                 bindO (self v subSchema) (\<lambda>subErrors. Some (Inr (Some subErrors))))
            else Some (Inr None)) (\<lambda>sub.
     case sub of
       Some subErrors \<Rightarrow>
         if \<not> strictEq subErrors (Bool True) then Some (Inr (concatValue errors subErrors, True))
         else bindO (Some (getProp sf ''label'')) (\<lambda>l.
                bindO (Some (validateSwitch h v (if truthy l then l else Str field) validation
                               validationParameters errors))
                  (\<lambda>errors'. Some (Inr (errors', False))))
     | None \<Rightarrow>
         bindO (Some (getProp sf ''label'')) (\<lambda>l.
           bindO (Some (validateSwitch h v (if truthy l then l else Str field) validation
                          validationParameters errors))
             (\<lambda>errors'. Some (Inr (errors', False))))))))"

text \<open>
  The inner loop, over the rules of one field. Its first statement is
  \<^verbatim>\<open>if(errors.length > 0) break\<close>, on the one error list of the whole call.
\<close>

fun validateRules ::
  "(jsval \<Rightarrow> jsval \<Rightarrow> jsval result option) \<Rightarrow> host \<Rightarrow> jsval \<Rightarrow> jsval \<Rightarrow> string \<Rightarrow> string list
     \<Rightarrow> jsval list \<Rightarrow> jsval list result option" where
  "validateRules self h obj sf field [] errors = Some (Inr errors)"
| "validateRules self h obj sf field (validation # rest) errors =
     (if length errors > 0 then Some (Inr errors)
      else bindO (validateRule self h obj sf field validation errors) (\<lambda>(errors', stop).
             if stop then Some (Inr errors') else validateRules self h obj sf field rest errors'))"

text \<open>The outer loop, over the fields of the schema.\<close>

fun validateFields ::
  "(jsval \<Rightarrow> jsval \<Rightarrow> jsval result option) \<Rightarrow> host \<Rightarrow> jsval \<Rightarrow> jsval \<Rightarrow> string list
     \<Rightarrow> jsval list \<Rightarrow> jsval list result option" where
  "validateFields self h obj schema [] errors = Some (Inr errors)"
| "validateFields self h obj schema (field # rest) errors =
     bindO (Some (getProp schema field)) (\<lambda>sf.
     bindO (Some (getProp sf ''validation'')) (\<lambda>vd.
       if typeof vd \<noteq> ''undefined'' then
         bindO (validateRules self h obj sf field (forInKeys vd) errors)
           (\<lambda>errors'. validateFields self h obj schema rest errors')
       else validateFields self h obj schema rest errors))"

definition validateBody ::
  "(jsval \<Rightarrow> jsval \<Rightarrow> jsval result option) \<Rightarrow> host \<Rightarrow> jsval \<Rightarrow> jsval \<Rightarrow> jsval result option" where
  "validateBody self h obj schema =
     bindO (validateFields self h obj schema (forInKeys schema) [])
       (\<lambda>errors. Some (Inr (if length errors > 0 then Arr errors else Bool True)))"

fun validate :: "nat \<Rightarrow> host \<Rightarrow> jsval \<Rightarrow> jsval \<Rightarrow> jsval result option" where
  "validate 0 h obj schema = None"
| "validate (Suc fuel) h obj schema = validateBody (validate fuel h) h obj schema"

subsection \<open>The extend library\<close>

text \<open>
  \<^verbatim>\<open>extend(true, target, options)\<close>: every enumerable property of \<open>options\<close> is
  copied onto the target. A plain object or an array is copied deeply, onto what the
  target holds under that name when that is of the same kind and onto a new object or
  array otherwise; any other value is written as it is, and an undefined one is
  skipped.
\<close>

fun isPlainObject :: "jsval \<Rightarrow> bool" where
  "isPlainObject (Obj fs) = True"
| "isPlainObject v = False"

definition extendClone :: "jsval \<Rightarrow> string \<Rightarrow> jsval \<Rightarrow> jsval" where
  "extendClone target name copy =
     (let src = (case getProp target name of Inl e \<Rightarrow> Undefined | Inr v \<Rightarrow> v) in
      if isArray copy then (if isArray src then src else Arr [])
      else (if isPlainObject src then src else Obj []))"

definition extendSet :: "jsval \<Rightarrow> string \<Rightarrow> jsval \<Rightarrow> jsval \<Rightarrow> jsval" where
  "extendSet target name copy deepCopy =
     (let w = (if isPlainObject copy \<or> isArray copy then deepCopy else copy) in
      if copy = Undefined then target
      else case setProp target name w of Inl e \<Rightarrow> target | Inr t \<Rightarrow> t)"

fun extendDeep :: "jsval \<Rightarrow> jsval \<Rightarrow> jsval"
and extendProps :: "jsval \<Rightarrow> (string \<times> jsval) list \<Rightarrow> jsval"
and extendElems :: "jsval \<Rightarrow> nat \<Rightarrow> jsval list \<Rightarrow> jsval" where
  "extendDeep target (Obj fs) = extendProps target fs"
| "extendDeep target (Arr xs) = extendElems target 0 xs"
| "extendDeep target (Str s) = foldl (\<lambda>t (k, c). extendSet t k (Str [c]) (Str [c])) target
                             (zip (indexKeys 0 (length s)) s)"
| "extendDeep target v = target"
| "extendProps target [] = target"
| "extendProps target ((name, copy) # rest) =
     extendProps (extendSet target name copy (extendDeep (extendClone target name copy) copy)) rest"
| "extendElems target i [] = target"
| "extendElems target i (copy # rest) =
     extendElems (extendSet target (showNat i) copy (extendDeep (extendClone target (showNat i) copy) copy))
       (Suc i) rest"

subsection \<open>Sanitizers of the other field types\<close>

text \<open>
  Of \<^verbatim>\<open>sanitizeString\<close> the console warning on truncation is left out: nothing reads
  it. \<^verbatim>\<open>parseFloat\<close> and moment are the host's.
\<close>

definition sanitizeCallback :: "jsval \<Rightarrow> jsval \<Rightarrow> jsval result" where
  "sanitizeCallback v schemaConfig =
     (if typeof v \<noteq> ''function'' then Inl (Error ''Provided callback is not a valid function'')
      else Inr v)"

definition sanitizeFloat :: "host \<Rightarrow> jsval \<Rightarrow> jsval \<Rightarrow> jsval result" where
  "sanitizeFloat h value schemaConfig =
     (let v = hostParseFloat h value in
      bindR (getProp schemaConfig ''min'') (\<lambda>mn.
        if typeof mn \<noteq> ''undefined'' \<and> jsLess h v mn
        then Inl (Error ''Provided value cannot be sanitized, value is below minimum float allowed'')
        else bindR (getProp schemaConfig ''max'') (\<lambda>mx.
          if typeof mx \<noteq> ''undefined'' \<and> jsLess h mx v
          then Inl (Error ''Provided value cannot be sanitized, value is greater than maximum float allowed'')
          else Inr v)))"

definition substr0 :: "host \<Rightarrow> string \<Rightarrow> jsval \<Rightarrow> string" where
  "substr0 h s n = (case toNumber h n of Num m \<Rightarrow> take (nat m) s | _ \<Rightarrow> [])"

definition sanitizeString :: "host \<Rightarrow> jsval \<Rightarrow> jsval \<Rightarrow> jsval result" where
  "sanitizeString h value schemaConfig =
     (let s = toString h value in
      bindR (getProp schemaConfig ''minLength'') (\<lambda>mn.
        if typeof mn \<noteq> ''undefined'' \<and> jsLess h (Num (int (length s))) mn
        then Inl (Error ''Provided value cannot be sanitized, string length is below minimum allowed'')
        else bindR (getProp schemaConfig ''maxLength'') (\<lambda>mx.
          if typeof mx \<noteq> ''undefined'' \<and> jsLess h mx (Num (int (length s)))
          then Inr (Str (substr0 h s mx))
          else Inr (Str s))))"

definition sanitizeDateTime :: "host \<Rightarrow> jsval \<Rightarrow> jsval \<Rightarrow> bool \<Rightarrow> jsval result" where
  "sanitizeDateTime h value schemaConfig json =
     bindR (getProp schemaConfig ''utc'') (\<lambda>utc.
     bindR (getProp schemaConfig ''format'') (\<lambda>format.
       case hostMoment h (typeof utc = ''undefined'' \<or> truthy utc) value format of
         Some t \<Rightarrow>
           if json then Inr (Str (hostMomentFormat h t ''YYYY-MM-DD hh:mm:ss'')) else Inr (Moment t)
       | None \<Rightarrow>
           bindR (getProp schemaConfig ''field'') (\<lambda>f.
             Inl (Error (''Provided value ('' @ toString h value
                          @ '') cannot be sanitized for field ('' @ toString h f
                          @ ''), is not a valid date'')))))"

definition toLowerCase :: "string \<Rightarrow> string" where
  "toLowerCase s = map (\<lambda>c. let n = (of_char c :: nat) in
                              if 65 \<le> n \<and> n \<le> 90 then char_of (n + 32) else c) s"

definition trim :: "string \<Rightarrow> string" where
  "trim s = rev (dropWhile isSpace (rev (dropWhile isSpace s)))"

definition sanitizeBooleanNumber :: "host \<Rightarrow> jsval \<Rightarrow> jsval result" where
  "sanitizeBooleanNumber h v =
     (if strictEq (parseInt h v) (Num 0) then Inr (Bool False)
      else if strictEq (parseInt h v) (Num 1) then Inr (Bool True)
      else Inl (Error ''Provided value cannot be santized, is not a valid boolean''))"

fun sanitizeBoolean :: "host \<Rightarrow> jsval \<Rightarrow> jsval \<Rightarrow> jsval result" where
  "sanitizeBoolean h (Bool b) schemaConfig = Inr (Bool b)"
| "sanitizeBoolean h (Str s) schemaConfig =
     (if trim (toLowerCase s) = ''false'' then Inr (Bool False)
      else if trim (toLowerCase s) = ''true'' then Inr (Bool True)
      else sanitizeBooleanNumber h (Str s))"
| "sanitizeBoolean h v schemaConfig = sanitizeBooleanNumber h v"

subsection \<open>sanitize\<close>

text \<open>
  \<^verbatim>\<open>schemaConfig.constructor\<close>. A descriptor that has no property of that name
  inherits \<^verbatim>\<open>Object\<close>, which is a function, and \<^verbatim>\<open>new Object(x)\<close> of an object is
  that object.
\<close>

definition ownProperty :: "jsval \<Rightarrow> string \<Rightarrow> jsval option" where
  "ownProperty v k = (case v of Obj fs \<Rightarrow> map_of fs k | _ \<Rightarrow> None)"

definition constructorIsFunction :: "jsval \<Rightarrow> bool" where
  "constructorIsFunction schemaConfig =
     (case ownProperty schemaConfig ''constructor'' of None \<Rightarrow> True | Some c \<Rightarrow> typeof c = ''function'')"

definition construct :: "host \<Rightarrow> jsval \<Rightarrow> jsval \<Rightarrow> jsval result" where
  "construct h schemaConfig arg =
     (case ownProperty schemaConfig ''constructor'' of
        None \<Rightarrow> Inr arg
      | Some (Fun f) \<Rightarrow> hostNew h f [arg]
      | Some c \<Rightarrow> Inl TypeError)"

text \<open>
  The call \<^verbatim>\<open>schemaConfig.schema()\<close> followed by \<^verbatim>\<open>this.sanitize\<close>, wrapped in the
  constructor when the result is not meant as JSON: the common tail of
  \<^verbatim>\<open>sanitizeObject\<close> and of the element function of \<^verbatim>\<open>sanitizeArray\<close>.
  \<open>self\<close> is \<^verbatim>\<open>this.sanitize\<close>.
\<close>

definition sanitizeWithSchema ::
  "(jsval \<Rightarrow> jsval \<Rightarrow> bool \<Rightarrow> jsval result option) \<Rightarrow> host \<Rightarrow> jsval \<Rightarrow> jsval \<Rightarrow> bool
     \<Rightarrow> jsval result option" where
  "sanitizeWithSchema self h v schemaConfig json =
     bindO (Some (bindR (getProp schemaConfig ''schema'') (\<lambda>f. callFunction h f []))) (\<lambda>subSchema.
       if \<not> json \<and> constructorIsFunction schemaConfig
       then bindO (self v subSchema False) (\<lambda>r. Some (construct h schemaConfig r))
       else self v subSchema json)"

definition sanitizeObject ::
  "(jsval \<Rightarrow> jsval \<Rightarrow> bool \<Rightarrow> jsval result option) \<Rightarrow> host \<Rightarrow> jsval \<Rightarrow> jsval \<Rightarrow> bool
     \<Rightarrow> jsval result option" where
  "sanitizeObject self h v schemaConfig json =
     bindO (Some (getProp schemaConfig ''schema'')) (\<lambda>sch.
       if typeof sch = ''undefined'' then
         Some (Inl (Error ''Provided value cannot be santized, no reference schema provided for field type of object''))
       else if strictEq sch Null then Some (Inr v)
       else if strictEq v Null then Some (Inr Null)
       else sanitizeWithSchema self h v schemaConfig json)"

text \<open>The descriptor \<^verbatim>\<open>sanitizeArray\<close> builds for the members of a typed array.\<close>

definition memberSchema :: "jsval \<Rightarrow> jsval \<Rightarrow> jsval" where
  "memberSchema memberType memberTypeConfig =
     Obj [(''member'', extendDeep (Obj [(''type'', memberType), (''schema'', Null)])
                         (if truthy memberTypeConfig then memberTypeConfig else Obj []))]"

definition sanitizeArray ::
  "(jsval \<Rightarrow> jsval \<Rightarrow> bool \<Rightarrow> jsval result option)
     \<Rightarrow> (string \<Rightarrow> jsval \<Rightarrow> bool \<Rightarrow> jsval \<Rightarrow> jsval result option)
     \<Rightarrow> host \<Rightarrow> jsval \<Rightarrow> jsval \<Rightarrow> bool \<Rightarrow> jsval result option" where
  "sanitizeArray self selfField h v schemaConfig json =
     bindO (Some (getProp schemaConfig ''memberType'')) (\<lambda>memberType.
       if typeof memberType \<noteq> ''undefined'' then
         (case v of
            Arr xs \<Rightarrow>
              bindO (mapO (\<lambda>x.
                       bindO (Some (getProp schemaConfig ''memberTypeConfig'')) (\<lambda>memberTypeConfig.
                         selfField ''member'' (memberSchema memberType memberTypeConfig) json
                           (Obj [(''member'', x)]))) xs)
                (\<lambda>ys. Some (Inr (Arr ys)))
          | _ \<Rightarrow> Some (Inr (Arr [])))
       else
         (case v of
            Arr xs \<Rightarrow>
              bindO (Some (getProp schemaConfig ''schema'')) (\<lambda>sch.
                if typeof sch = ''undefined'' \<or> strictEq sch Null \<or> strictEq sch (Bool False)
                then Some (Inr v)
                else bindO (mapO (\<lambda>x. sanitizeWithSchema self h x schemaConfig json) xs)
                       (\<lambda>ys. Some (Inr (Arr ys))))
          | _ \<Rightarrow> Some (Inr (Arr []))))"

text \<open>
  \<^verbatim>\<open>sanitizeField(field, schema, json, obj)\<close>. The default is written into the
  caller's copy of the object and the field's name into the descriptor; the copy is
  read nowhere else, and the descriptor is handed on as it then is. \<open>self\<close> and
  \<open>selfField\<close> are \<^verbatim>\<open>this.sanitize\<close> and \<^verbatim>\<open>this.sanitizeField\<close>.
\<close>

definition sanitizeByType ::
  "(jsval \<Rightarrow> jsval \<Rightarrow> bool \<Rightarrow> jsval result option)
     \<Rightarrow> (string \<Rightarrow> jsval \<Rightarrow> bool \<Rightarrow> jsval \<Rightarrow> jsval result option)
     \<Rightarrow> host \<Rightarrow> jsval \<Rightarrow> jsval \<Rightarrow> jsval \<Rightarrow> bool \<Rightarrow> jsval result option" where
  "sanitizeByType self selfField h ty v sf json =
     (if ty = Str ''int'' \<or> ty = Str ''integer'' then Some (sanitizeInteger h v sf)
      else if ty = Str ''float'' \<or> ty = Str ''double'' then Some (sanitizeFloat h v sf)
      else if ty = Str ''string'' \<or> ty = Str ''char'' \<or> ty = Str ''varchar'' then Some (sanitizeString h v sf)
      else if ty = Str ''date'' \<or> ty = Str ''datetime'' \<or> ty = Str ''timestamp''
        then Some (sanitizeDateTime h v sf json)
      else if ty = Str ''bool'' \<or> ty = Str ''boolean'' then Some (sanitizeBoolean h v sf)
      else if ty = Str ''obj'' \<or> ty = Str ''object'' then sanitizeObject self h v sf json
      else if ty = Str ''array'' \<or> ty = Str ''collection'' then sanitizeArray self selfField h v sf json
      else if ty = Str ''callback'' then Some (sanitizeCallback v sf)
      else bindO (Some (getProp sf ''sanitize'')) (\<lambda>custom.
             if typeof custom \<noteq> ''undefined'' then Some (callFunction h custom [v, sf])
             else Some (Inr Undefined)))"

definition sanitizeFieldBody ::
  "(jsval \<Rightarrow> jsval \<Rightarrow> bool \<Rightarrow> jsval result option)
     \<Rightarrow> (string \<Rightarrow> jsval \<Rightarrow> bool \<Rightarrow> jsval \<Rightarrow> jsval result option)
     \<Rightarrow> host \<Rightarrow> string \<Rightarrow> jsval \<Rightarrow> bool \<Rightarrow> jsval \<Rightarrow> jsval result option" where
  "sanitizeFieldBody self selfField h field schema json obj =
     bindO (Some (getProp schema field)) (\<lambda>sf.
     bindO (Some (getProp sf ''type'')) (\<lambda>ty.
       if strictEq ty (Str ''function'') then Some (getProp sf ''value'')
       else
         bindO (Some (getProp obj field)) (\<lambda>v0.
         bindO (if typeof v0 = ''undefined'' then
                  bindO (Some (getProp sf ''initial'')) (\<lambda>initial.
                    if typeof initial \<noteq> ''undefined'' then Some (callFunction h initial [])
                    else Some (Inr Null))
                else Some (Inr v0)) (\<lambda>v.
           if strictEq v Null \<and> \<not> strictEq ty (Str ''obj'') \<and> \<not> strictEq ty (Str ''object'')
           then Some (Inr Null)
           else bindO (Some (setProp sf ''field'' (Str field))) (\<lambda>sf'.
                  sanitizeByType self selfField h ty v sf' json)))))"

text \<open>The loop of \<^verbatim>\<open>sanitize\<close>: \<^verbatim>\<open>clean[field] = this.sanitizeField(...)\<close>, field by field.\<close>

fun sanitizeFields ::
  "(string \<Rightarrow> jsval \<Rightarrow> bool \<Rightarrow> jsval \<Rightarrow> jsval result option) \<Rightarrow> jsval \<Rightarrow> bool \<Rightarrow> jsval
     \<Rightarrow> string list \<Rightarrow> (string \<times> jsval) list \<Rightarrow> (string \<times> jsval) list result option" where
  "sanitizeFields selfField schema json tmp [] clean = Some (Inr clean)"
| "sanitizeFields selfField schema json tmp (field # rest) clean =
     bindO (selfField field schema json tmp) (\<lambda>v.
       sanitizeFields selfField schema json tmp rest (AList.update field v clean))"

definition sanitizeBody ::
  "(string \<Rightarrow> jsval \<Rightarrow> bool \<Rightarrow> jsval \<Rightarrow> jsval result option) \<Rightarrow> jsval \<Rightarrow> jsval \<Rightarrow> bool
     \<Rightarrow> jsval result option" where
  "sanitizeBody selfField obj schema json =
     (let tmp = extendDeep (Obj []) obj in
      bindO (sanitizeFields selfField schema json tmp (forInKeys schema) [])
        (\<lambda>clean. Some (Inr (Obj clean))))"

fun sanitize :: "nat \<Rightarrow> host \<Rightarrow> jsval \<Rightarrow> jsval \<Rightarrow> bool \<Rightarrow> jsval result option"
and sanitizeField :: "nat \<Rightarrow> host \<Rightarrow> string \<Rightarrow> jsval \<Rightarrow> bool \<Rightarrow> jsval \<Rightarrow> jsval result option" where
  "sanitize 0 h obj schema json = None"
| "sanitize (Suc fuel) h obj schema json =
     sanitizeBody (\<lambda>field sch j tmp. sanitizeField fuel h field sch j tmp) obj schema json"
| "sanitizeField 0 h field schema json obj = None"
| "sanitizeField (Suc fuel) h field schema json obj =
     sanitizeFieldBody (\<lambda>v sch j. sanitize fuel h v sch j)
       (\<lambda>f sch j tmp. sanitizeField fuel h f sch j tmp) h field schema json obj"

text \<open>
  The names every object inherits from \<^verbatim>\<open>Object.prototype\<close>. An object that has no
  own property of such a name still answers a read of it, with the inherited member, and
  an assignment to \<^verbatim>\<open>__proto__\<close> creates no property. \<open>getProp\<close> and \<open>setProp\<close>
  do not model that: what is proved of a read or a write of a name the object may lack
  is proved for the other names.
\<close>

definition objectPrototypeNames :: "string list" where
  "objectPrototypeNames =
     [''constructor'', ''hasOwnProperty'', ''isPrototypeOf'', ''propertyIsEnumerable'',
      ''toLocaleString'', ''toString'', ''valueOf'', ''__proto__'', ''__defineGetter__'',
      ''__defineSetter__'', ''__lookupGetter__'', ''__lookupSetter__'']"

text \<open>
  What the copy \<^verbatim>\<open>extend(true, {}, obj)\<close> holds for a value of the input: an array or
  a plain object is copied deeply onto a new one, anything else is the value itself.
\<close>

definition inputCopy :: "jsval \<Rightarrow> jsval" where
  "inputCopy w =
     (if isArray w then extendDeep (Arr []) w
      else if isPlainObject w then extendDeep (Obj []) w
      else w)"

text \<open>
  Where the value of a field comes from, in the words of the specification: from the
  input; when the input leaves the field undefined, from the descriptor's
  \<^verbatim>\<open>initial()\<close>; and when there is no such default either, it is \<^verbatim>\<open>null\<close>.
\<close>

definition populatedFrom :: "host \<Rightarrow> jsval \<Rightarrow> jsval \<Rightarrow> jsval result" where
  "populatedFrom h descriptor input =
     (if input \<noteq> Undefined then Inr input
      else case ownProperty descriptor ''initial'' of
             None \<Rightarrow> Inr Null
           | Some initial \<Rightarrow> if initial = Undefined then Inr Null else callFunction h initial [])"

text \<open>
  The types \<^verbatim>\<open>sanitizeField\<close> has a case for, and among them those whose sanitizer
  calls \<^verbatim>\<open>sanitize\<close> or \<^verbatim>\<open>sanitizeField\<close> again.
\<close>

definition knownTypes :: "string list" where
  "knownTypes = [''int'', ''integer'', ''float'', ''double'', ''string'', ''char'', ''varchar'',
                 ''date'', ''datetime'', ''timestamp'', ''bool'', ''boolean'', ''obj'', ''object'',
                 ''array'', ''collection'', ''callback'']"

definition nestingTypes :: "string list" where
  "nestingTypes = [''obj'', ''object'', ''array'', ''collection'']"

text \<open>A schema for examples: a descriptor with the rule \<^verbatim>\<open>required\<close>.\<close>

definition requiredField :: jsval where
  "requiredField = Obj [(''type'', Str ''string''), (''validation'', Obj [(''required'', Bool True)])]"

text \<open>A descriptor can be read: it is neither \<^verbatim>\<open>null\<close> nor \<^verbatim>\<open>undefined\<close>.\<close>

definition readable :: "jsval \<Rightarrow> string \<Rightarrow> bool" where
  "readable schema field =
     (case getProp schema field of Inl e \<Rightarrow> False | Inr sf \<Rightarrow> sf \<noteq> Null \<and> sf \<noteq> Undefined)"

text \<open>
  The second guard of \<^verbatim>\<open>upsertItem\<close>: the item already carries a \<^verbatim>\<open>__bID\<close> and it is
  not the key passed in.
\<close>

definition conflicting :: "jsval \<Rightarrow> jsval \<Rightarrow> bool" where
  "conflicting newItem keyValue =
     (case getProp newItem ''__bID'' of
        Inl e \<Rightarrow> False
      | Inr bid \<Rightarrow> typeof bid \<noteq> ''undefined'' \<and> \<not> strictEq bid keyValue)"

section \<open>The draft on the heap\<close>

text \<open>
  Whether two calls return the same object, and whether a copy shares anything with
  its original, cannot be read off a tree. For the draft the store is therefore
  modelled a second time with an explicit heap: a value is a primitive or a reference,
  and a heap is the list of its cells, the address of a cell being its position. A new
  object is appended to the heap.
\<close>

type_synonym addr = nat

datatype rval = RUndefined | RNull | RBool bool | RNum int | RNaN | RStr string | Ref addr

datatype cell =
    PlainCell "(string \<times> rval) list"
  | ArrayCell "rval list"
  | DateCell int
  | MomentCell int
  | FunctionCell nat

type_synonym heap = "cell list"

fun isRef :: "rval \<Rightarrow> bool" where
  "isRef (Ref a) = True"
| "isRef v = False"

fun truthyRef :: "rval \<Rightarrow> bool" where
  "truthyRef RUndefined = False"
| "truthyRef RNull = False"
| "truthyRef (RBool b) = b"
| "truthyRef (RNum n) = (n \<noteq> 0)"
| "truthyRef RNaN = False"
| "truthyRef (RStr s) = (s \<noteq> [])"
| "truthyRef (Ref a) = True"

text \<open>
  The customizer of \<^verbatim>\<open>cloneState\<close>: \<^verbatim>\<open>moment.isMoment(value)\<close> answers with
  \<^verbatim>\<open>value.clone()\<close>, \<^verbatim>\<open>value instanceof Date\<close> with \<^verbatim>\<open>new Date(value.getTime())\<close>,
  each a new object of the same kind and instant; for anything else it returns
  \<^verbatim>\<open>undefined\<close>.
\<close>

definition cloneCustomizerRef :: "heap \<Rightarrow> rval \<Rightarrow> (rval \<times> heap) option" where
  "cloneCustomizerRef h v =
     (case v of
        Ref a \<Rightarrow>
          if a < length h then
            (case h ! a of
               MomentCell t \<Rightarrow> Some (Ref (length h), h @ [MomentCell t])
             | DateCell t \<Rightarrow> Some (Ref (length h), h @ [DateCell t])
             | _ \<Rightarrow> None)
          else None
      | _ \<Rightarrow> None)"

text \<open>
  lodash \<^verbatim>\<open>cloneDeepWith\<close> on the heap, after its \<^verbatim>\<open>baseClone\<close>. The customizer is
  asked first, for every value, and what it answers is the clone; such a clone is not
  entered into the table. A primitive is then itself, and so is a function inside a
  structure. For an object lodash makes the new object, looks the value up in its table
  of objects already cloned (\<open>cloneStack\<close>) and returns what it finds there, dropping
  the new object; otherwise it enters the pair into the table and assigns to the new
  object, member by member, the clone of each member. A shared part is so cloned once,
  and a circular structure ends. The new object is: for a plain object an empty
  object, for an array an array of the same length, for a date a date of the same
  instant, for a function on its own an empty object. An instance of a class lodash has
  no case for, such as a moment, it copies property by property onto a new object of
  the same prototype; what that copy is worth as a moment is not lodash's to say and is
  left open, as the parameter \<open>cloneInstance\<close>.
\<close>

type_synonym cloneStack = "(addr \<times> addr) list"

text \<open>\<^verbatim>\<open>assignValue(result, key, value)\<close> on the object, or the array, at an address.\<close>

definition assignProp :: "heap \<Rightarrow> addr \<Rightarrow> string \<Rightarrow> rval \<Rightarrow> heap" where
  "assignProp h b k y =
     (case h ! b of PlainCell ps \<Rightarrow> h[b := PlainCell (AList.update k y ps)] | _ \<Rightarrow> h)"

definition assignElem :: "heap \<Rightarrow> addr \<Rightarrow> nat \<Rightarrow> rval \<Rightarrow> heap" where
  "assignElem h b i y =
     (case h ! b of ArrayCell ys \<Rightarrow> h[b := ArrayCell (ys[i := y])] | _ \<Rightarrow> h)"

definition baseCloneBody ::
  "(cloneStack \<Rightarrow> heap \<Rightarrow> addr \<Rightarrow> (string \<times> rval) list \<Rightarrow> (heap \<times> cloneStack) option)
     \<Rightarrow> (cloneStack \<Rightarrow> heap \<Rightarrow> addr \<Rightarrow> nat \<Rightarrow> rval list \<Rightarrow> (heap \<times> cloneStack) option)
     \<Rightarrow> (heap \<Rightarrow> rval \<Rightarrow> (rval \<times> heap) option) \<Rightarrow> (heap \<Rightarrow> addr \<Rightarrow> rval \<times> heap)
     \<Rightarrow> cloneStack \<Rightarrow> bool \<Rightarrow> heap \<Rightarrow> rval \<Rightarrow> (rval \<times> heap \<times> cloneStack) option" where
  "baseCloneBody props elems customizer cloneInstance stack outermost h v =
     (case customizer h v of
        Some (r, h1) \<Rightarrow> Some (r, h1, stack)
      | None \<Rightarrow>
         (case v of
            Ref a \<Rightarrow>
              if a < length h then
                (case h ! a of
                   PlainCell fs \<Rightarrow>
                     (case map_of stack a of
                        Some c \<Rightarrow> Some (Ref c, h @ [PlainCell []], stack)
                      | None \<Rightarrow>
                          (case props ((a, length h) # stack) (h @ [PlainCell []]) (length h) fs of
                             None \<Rightarrow> None
                           | Some (h1, stack1) \<Rightarrow> Some (Ref (length h), h1, stack1)))
                 | ArrayCell xs \<Rightarrow>
                     (case map_of stack a of
                        Some c \<Rightarrow> Some (Ref c, h @ [ArrayCell (replicate (length xs) RUndefined)], stack)
                      | None \<Rightarrow>
                          (case elems ((a, length h) # stack)
                                  (h @ [ArrayCell (replicate (length xs) RUndefined)]) (length h) 0 xs of
                             None \<Rightarrow> None
                           | Some (h1, stack1) \<Rightarrow> Some (Ref (length h), h1, stack1)))
                 | DateCell t \<Rightarrow>
                     (case map_of stack a of
                        Some c \<Rightarrow> Some (Ref c, h @ [DateCell t], stack)
                      | None \<Rightarrow> Some (Ref (length h), h @ [DateCell t], (a, length h) # stack))
                 | MomentCell t \<Rightarrow>
                     (case map_of stack a of
                        Some c \<Rightarrow> Some (Ref c, snd (cloneInstance h a), stack)
                      | None \<Rightarrow>
                          Some (fst (cloneInstance h a), snd (cloneInstance h a),
                                (case fst (cloneInstance h a) of
                                   Ref b \<Rightarrow> (a, b) # stack
                                 | _ \<Rightarrow> stack)))
                 | FunctionCell f \<Rightarrow>
                     if outermost then
                       (case map_of stack a of
                          Some c \<Rightarrow> Some (Ref c, h @ [PlainCell []], stack)
                        | None \<Rightarrow> Some (Ref (length h), h @ [PlainCell []], (a, length h) # stack))
                     else Some (v, h, stack))
              else Some (v, h, stack)
          | _ \<Rightarrow> Some (v, h, stack)))"

text \<open>The loop over the members: each is cloned, with the table as it then is, and assigned.\<close>

fun cloneProps ::
  "(cloneStack \<Rightarrow> heap \<Rightarrow> rval \<Rightarrow> (rval \<times> heap \<times> cloneStack) option)
     \<Rightarrow> cloneStack \<Rightarrow> heap \<Rightarrow> addr \<Rightarrow> (string \<times> rval) list \<Rightarrow> (heap \<times> cloneStack) option" where
  "cloneProps clone stack h b [] = Some (h, stack)"
| "cloneProps clone stack h b ((k, x) # rest) =
     (case clone stack h x of
        None \<Rightarrow> None
      | Some (y, h1, stack1) \<Rightarrow> cloneProps clone stack1 (assignProp h1 b k y) b rest)"

fun cloneElems ::
  "(cloneStack \<Rightarrow> heap \<Rightarrow> rval \<Rightarrow> (rval \<times> heap \<times> cloneStack) option)
     \<Rightarrow> cloneStack \<Rightarrow> heap \<Rightarrow> addr \<Rightarrow> nat \<Rightarrow> rval list \<Rightarrow> (heap \<times> cloneStack) option" where
  "cloneElems clone stack h b i [] = Some (h, stack)"
| "cloneElems clone stack h b i (x # rest) =
     (case clone stack h x of
        None \<Rightarrow> None
      | Some (y, h1, stack1) \<Rightarrow> cloneElems clone stack1 (assignElem h1 b i y) b (Suc i) rest)"

text \<open>
  Each level of nesting takes one unit of fuel: the clone of a member runs with one unit
  less than the clone of the object that holds it.
\<close>

fun baseClone ::
  "nat \<Rightarrow> (heap \<Rightarrow> rval \<Rightarrow> (rval \<times> heap) option) \<Rightarrow> (heap \<Rightarrow> addr \<Rightarrow> rval \<times> heap)
     \<Rightarrow> cloneStack \<Rightarrow> bool \<Rightarrow> heap \<Rightarrow> rval \<Rightarrow> (rval \<times> heap \<times> cloneStack) option" where
  "baseClone 0 customizer cloneInstance stack outermost h v = None"
| "baseClone (Suc fuel) customizer cloneInstance stack outermost h v =
     baseCloneBody
       (cloneProps (\<lambda>st h1 x. baseClone fuel customizer cloneInstance st False h1 x))
       (cloneElems (\<lambda>st h1 x. baseClone fuel customizer cloneInstance st False h1 x))
       customizer cloneInstance stack outermost h v"

text \<open>The tree a value of the heap stands for, read down to depth \<open>n\<close>.\<close>

fun absVal :: "nat \<Rightarrow> heap \<Rightarrow> rval \<Rightarrow> jsval" where
  "absVal n h RUndefined = Undefined"
| "absVal n h RNull = Null"
| "absVal n h (RBool b) = Bool b"
| "absVal n h (RNum i) = Num i"
| "absVal n h RNaN = NaN"
| "absVal n h (RStr s) = Str s"
| "absVal 0 h (Ref a) = Undefined"
| "absVal (Suc n) h (Ref a) =
     (if a < length h then
        (case h ! a of
           PlainCell fs \<Rightarrow> Obj (map (\<lambda>(k, x). (k, absVal n h x)) fs)
         | ArrayCell xs \<Rightarrow> Arr (map (absVal n h) xs)
         | DateCell t \<Rightarrow> DateV t
         | MomentCell t \<Rightarrow> Moment t
         | FunctionCell f \<Rightarrow> Fun f)
      else Undefined)"

text \<open>
  A heap is closed when every reference held in one of its cells is allocated and the
  properties of an object have distinct names. A closed heap may hold shared and
  circular structures.
\<close>

definition okVal :: "nat \<Rightarrow> rval \<Rightarrow> bool" where
  "okVal n v = (case v of Ref a \<Rightarrow> a < n | _ \<Rightarrow> True)"

definition okCell :: "nat \<Rightarrow> cell \<Rightarrow> bool" where
  "okCell n c =
     (case c of
        PlainCell fs \<Rightarrow> distinct (map fst fs) \<and> list_all (okVal n) (map snd fs)
      | ArrayCell xs \<Rightarrow> list_all (okVal n) xs
      | _ \<Rightarrow> True)"

definition closed :: "heap \<Rightarrow> bool" where
  "closed h = list_all (okCell (length h)) h"

text \<open>
  \<open>separate lo n h v\<close>: down to depth \<open>n\<close>, every object below \<open>v\<close>, functions apart,
  lives at an address from \<open>lo\<close> on.
\<close>

fun separate :: "addr \<Rightarrow> nat \<Rightarrow> heap \<Rightarrow> rval \<Rightarrow> bool" where
  "separate lo 0 h v = True"
| "separate lo (Suc n) h v =
     (case v of
        Ref a \<Rightarrow> a < length h \<and>
          (case h ! a of
             PlainCell fs \<Rightarrow> lo \<le> a \<and> list_all (separate lo n h) (map snd fs)
           | ArrayCell xs \<Rightarrow> lo \<le> a \<and> list_all (separate lo n h) xs
           | DateCell t \<Rightarrow> lo \<le> a
           | MomentCell t \<Rightarrow> lo \<le> a
           | FunctionCell f \<Rightarrow> True)
      | _ \<Rightarrow> True)"

definition isFunctionRef :: "heap \<Rightarrow> rval \<Rightarrow> bool" where
  "isFunctionRef h v =
     (case v of
        Ref a \<Rightarrow> a < length h \<and> (case h ! a of FunctionCell f \<Rightarrow> True | _ \<Rightarrow> False)
      | _ \<Rightarrow> False)"

text \<open>
  The relation between a structure and its clone while the clone is made. \<open>H\<close> is the
  heap before the call, \<open>st\<close> the table, \<open>h\<close> the heap as it is now.
  \<open>imageOf H st h x y\<close>: \<open>y\<close> is what the clone holds for the value \<open>x\<close> of the
  original: \<open>x\<close> itself for a primitive and a function, the table's entry for an object
  or an array, a new cell of the same kind and instant for a date or a moment.
  \<open>copied H st h (a, b)\<close>: the cell at \<open>b\<close> is complete, it holds the image of every
  member of the cell at \<open>a\<close>. \<open>cloning H st h\<close>: \<open>h\<close> extends \<open>H\<close>, and the table
  maps distinct addresses of \<open>H\<close> to new addresses holding a cell of the same kind.
  \<open>cloneOk\<close>: what a call of the clone function achieves.
\<close>

definition temporalAt :: "heap \<Rightarrow> heap \<Rightarrow> cell \<Rightarrow> rval \<Rightarrow> bool" where
  "temporalAt H h c y =
     (case y of Ref b \<Rightarrow> length H \<le> b \<and> b < length h \<and> h ! b = c | _ \<Rightarrow> False)"

definition imageOf :: "heap \<Rightarrow> cloneStack \<Rightarrow> heap \<Rightarrow> rval \<Rightarrow> rval \<Rightarrow> bool" where
  "imageOf H st h x y =
     (case x of
        Ref a \<Rightarrow>
          (case H ! a of
             PlainCell fs \<Rightarrow> (case map_of st a of Some b \<Rightarrow> y = Ref b | None \<Rightarrow> False)
           | ArrayCell xs \<Rightarrow> (case map_of st a of Some b \<Rightarrow> y = Ref b | None \<Rightarrow> False)
           | DateCell t \<Rightarrow> temporalAt H h (DateCell t) y
           | MomentCell t \<Rightarrow> temporalAt H h (MomentCell t) y
           | FunctionCell f \<Rightarrow> y = x)
      | _ \<Rightarrow> y = x)"

definition copied :: "heap \<Rightarrow> cloneStack \<Rightarrow> heap \<Rightarrow> addr \<times> addr \<Rightarrow> bool" where
  "copied H st h p =
     (case H ! fst p of
        PlainCell fs \<Rightarrow>
          (case h ! snd p of
             PlainCell gs \<Rightarrow>
               map fst gs = map fst fs \<and> list_all2 (imageOf H st h) (map snd fs) (map snd gs)
           | _ \<Rightarrow> False)
      | ArrayCell xs \<Rightarrow>
          (case h ! snd p of
             ArrayCell ys \<Rightarrow> list_all2 (imageOf H st h) xs ys
           | _ \<Rightarrow> False)
      | _ \<Rightarrow> False)"

definition sameKind :: "cell \<Rightarrow> cell \<Rightarrow> bool" where
  "sameKind c d =
     (case c of
        PlainCell fs \<Rightarrow> (case d of PlainCell gs \<Rightarrow> True | _ \<Rightarrow> False)
      | ArrayCell xs \<Rightarrow> (case d of ArrayCell ys \<Rightarrow> True | _ \<Rightarrow> False)
      | _ \<Rightarrow> False)"

definition cloning :: "heap \<Rightarrow> cloneStack \<Rightarrow> heap \<Rightarrow> bool" where
  "cloning H st h =
     (take (length H) h = H \<and> length H \<le> length h \<and> distinct (map fst st)
      \<and> list_all (\<lambda>p. fst p < length H \<and> length H \<le> snd p \<and> snd p < length h
                        \<and> sameKind (H ! fst p) (h ! snd p)) st)"

definition plainOrArray :: "cell \<Rightarrow> bool" where
  "plainOrArray c = (case c of PlainCell fs \<Rightarrow> True | ArrayCell xs \<Rightarrow> True | _ \<Rightarrow> False)"

definition cloneOk ::
  "heap \<Rightarrow> (cloneStack \<Rightarrow> heap \<Rightarrow> rval \<Rightarrow> (rval \<times> heap \<times> cloneStack) option)
     \<Rightarrow> cloneStack \<Rightarrow> heap \<Rightarrow> rval \<Rightarrow> bool" where
  "cloneOk H clone st h x =
     (\<exists>y e new. clone st h x = Some (y, h @ e, new @ st)
        \<and> cloning H (new @ st) (h @ e)
        \<and> imageOf H (new @ st) (h @ e) x y
        \<and> (\<forall>p \<in> set new. length h \<le> snd p \<and> copied H (new @ st) (h @ e) p))"

text \<open>
  The two fields \<^verbatim>\<open>cloneState\<close> and \<^verbatim>\<open>nextState\<close> touch: \<^verbatim>\<open>state\<close> and
  \<^verbatim>\<open>_nextState\<close>.
\<close>

record storeRef =
  stateRef :: rval
  draftRef :: rval

definition cloneDeepWithRef ::
  "nat \<Rightarrow> (heap \<Rightarrow> addr \<Rightarrow> rval \<times> heap) \<Rightarrow> heap \<Rightarrow> rval
     \<Rightarrow> (heap \<Rightarrow> rval \<Rightarrow> (rval \<times> heap) option) \<Rightarrow> (rval \<times> heap) option" where
  "cloneDeepWithRef fuel cloneInstance h v customizer =
     (case baseClone fuel customizer cloneInstance [] True h v of
        None \<Rightarrow> None
      | Some (r, h1, stack) \<Rightarrow> Some (r, h1))"

definition cloneStateRef ::
  "nat \<Rightarrow> (heap \<Rightarrow> addr \<Rightarrow> rval \<times> heap) \<Rightarrow> heap \<Rightarrow> storeRef \<Rightarrow> (rval \<times> heap) option" where
  "cloneStateRef fuel cloneInstance h s =
     cloneDeepWithRef fuel cloneInstance h (stateRef s) cloneCustomizerRef"

definition nextStateRef ::
  "nat \<Rightarrow> (heap \<Rightarrow> addr \<Rightarrow> rval \<times> heap) \<Rightarrow> heap \<Rightarrow> storeRef
     \<Rightarrow> (rval \<times> heap \<times> storeRef) option" where
  "nextStateRef fuel cloneInstance h s =
     (if truthyRef (draftRef s) then Some (draftRef s, h, s)
      else case cloneStateRef fuel cloneInstance h s of
             None \<Rightarrow> None
           | Some (c, h') \<Rightarrow> Some (c, h', s\<lparr>draftRef := c\<rparr>))"


section \<open>Example stores\<close>

text \<open>
  A store in debug mode after one complete cycle: one \<^verbatim>\<open>stateChange\<close> named
  \<^verbatim>\<open>add\<close>, then the flush it asked for.
\<close>

definition cycle1 :: store where
  "cycle1 = flush (stateChange ''add'' (Obj [(''n'', Num 1)])
                     ((newStore ''u'')\<lparr>state := Obj [(''n'', Num 0)], debug := True\<rparr>))"

text \<open>
  A committed state on the heap: an object holding a date, a moment, an array under two
  names, itself, and a number.
\<close>

definition heap0 :: heap where
  "heap0 = [PlainCell [(''when'', Ref 1), (''at'', Ref 2), (''tags'', Ref 3), (''again'', Ref 3),
                       (''self'', Ref 0), (''n'', RNum 1)],
            DateCell 5, MomentCell 7, ArrayCell [RStr ''a'']]"

definition store0 :: storeRef where
  "store0 = \<lparr> stateRef = Ref 0, draftRef = RNull \<rparr>"

text \<open>A lodash that clones an instance of a class it has no case for to an empty object.\<close>

definition emptyInstance :: "heap \<Rightarrow> addr \<Rightarrow> rval \<times> heap" where
  "emptyInstance h a = (Ref (length h), h @ [PlainCell []])"

text \<open>The heap after the first \<^verbatim>\<open>nextState\<close> on that state.\<close>

definition heap1 :: heap where
  "heap1 = heap0 @ [PlainCell [(''when'', Ref 5), (''at'', Ref 6), (''tags'', Ref 7),
                               (''again'', Ref 7), (''self'', Ref 4), (''n'', RNum 1)],
                    DateCell 5, MomentCell 7, ArrayCell [RStr ''a''],
                    ArrayCell [RUndefined], PlainCell []]"

text \<open>
  A host for closed examples: objects print as plain objects do, nothing outside the
  modelled fragment converts to a number, and no function object can be called.
\<close>

definition plainHost :: host where
  "plainHost = \<lparr> hostToString = (\<lambda>v. ''[object Object]''),
                 hostToNumber = (\<lambda>v. NaN),
                 hostLess = (\<lambda>a b. False),
                 hostCall = (\<lambda>f args. Inl TypeError),
                 hostNew = (\<lambda>f args. Inl TypeError),
                 hostParseFloat = (\<lambda>v. NaN),
                 hostParseInt = (\<lambda>s. NaN),
                 hostMoment = (\<lambda>utc v fmt. None),
                 hostMomentFormat = (\<lambda>t fmt. []),
                 lodashMerge = (\<lambda>a b. a) \<rparr>"

text \<open>
  A host with one function object: function 0, called without arguments, returns the
  string \<^verbatim>\<open>"7 apples"\<close>.
\<close>

definition defaultsHost :: host where
  "defaultsHost = plainHost \<lparr> hostCall := (\<lambda>f args. if f = 0 \<and> args = [] then Inr (Str ''7 apples'')
                                                    else Inl TypeError) \<rparr>"

text \<open>
  An input and a schema for it. The input has a field the schema does not name; the
  schema has a field the input lacks and that has no default, one that has the default
  of function 0, one of type \<^verbatim>\<open>function\<close>, and one of a type \<^verbatim>\<open>sanitizeField\<close> has
  no case for.
\<close>

definition input1 :: "(string \<times> jsval) list" where
  "input1 = [(''n'', Str ''12abc''), (''junk'', Num 1), (''f'', Num 3), (''c'', Num 5)]"

definition schema1 :: "(string \<times> jsval) list" where
  "schema1 = [(''n'', Obj [(''type'', Str ''int'')]),
              (''s'', Obj [(''type'', Str ''string'')]),
              (''d'', Obj [(''type'', Str ''int''), (''initial'', Fun 0)]),
              (''f'', Obj [(''type'', Str ''function''), (''value'', Fun 9)]),
              (''c'', Obj [(''type'', Str ''money'')])]"

section \<open>Properties of the scalar sanitizers\<close>

lemmas parse_simps =
  replaceLetters_def isLetter_def isDigit_def isHexDigit_def isSpace_def digitValue_def
  digitsValue_def parseIntDigits_def readInteger_def parseIntString_def parseInt_def safeInteger_def

lemma letters_are: "\<forall>c \<in> set asciiLetters. isLetter c"
  by (simp add: asciiLetters_def isLetter_def)

lemma isLetter_char_of: "isLetter c \<Longrightarrow> c \<in> char_of ` ({65..90} \<union> {97..122} :: nat set)"
proof -
  assume "isLetter c"
  hence "(of_char c :: nat) \<in> {65..90} \<union> {97..122}" by (auto simp: isLetter_def Let_def)
  hence "char_of (of_char c :: nat) \<in> char_of ` ({65..90} \<union> {97..122} :: nat set)" by (rule imageI)
  thus ?thesis by simp
qed

lemma isLetter_iff: "isLetter c \<longleftrightarrow> c \<in> set asciiLetters"
proof
  assume "isLetter c"
  from isLetter_char_of [OF this] show "c \<in> set asciiLetters"
    unfolding atLeastAtMost_upt asciiLetters_def
    by (simp add: upt_rec char_of_def bit_Suc_0_iff)
next
  assume "c \<in> set asciiLetters" thus "isLetter c" using letters_are by blast
qed

lemma replaceLetters_filter: "replaceLetters s = filter (\<lambda>c. c \<notin> set asciiLetters) s"
  by (simp add: replaceLetters_def isLetter_iff)

declare showNat.simps [simp del]

lemma digit_char:
  assumes "d < 10"
  shows "isDigit (char_of (48 + d))" and "digitValue (char_of (48 + d)) = int d"
  using assms by (simp_all add: isDigit_def digitValue_def)

lemma showNat_digits:
  "showNat n \<noteq> [] \<and> list_all isDigit (showNat n) \<and> digitsValue 10 (showNat n) = int n"
proof (induction n rule: showNat.induct)
  case (1 n)
  show ?case
  proof (cases "n < 10")
    case True
    thus ?thesis by (subst (1 2 3) showNat.simps) (simp add: digit_char digitsValue_def)
  next
    case False
    hence m: "n mod 10 < 10" by simp
    from 1 False have ih: "showNat (n div 10) \<noteq> []" "list_all isDigit (showNat (n div 10))"
      "digitsValue 10 (showNat (n div 10)) = int (n div 10)" by simp_all
    from False have e: "showNat n = showNat (n div 10) @ [char_of (48 + n mod 10)]"
      by (subst showNat.simps) simp
    have "digitsValue 10 (showNat n) = int (n div 10) * 10 + int (n mod 10)"
      using ih(3) digit_char(2) [OF m] unfolding e by (simp add: digitsValue_def)
    also have "\<dots> = int n" by (simp add: zdiv_int zmod_int)
    finally show ?thesis using ih digit_char(1) [OF m] unfolding e by simp
  qed
qed

lemma readInteger_digits:
  assumes "z \<noteq> []" and "list_all isDigit z"
  shows "readInteger z = Num (digitsValue 10 z)"
    and "readInteger (CHR ''-'' # z) = Num (- digitsValue 10 z)"
proof -
  from assms obtain c cs where z: "z = c # cs" and c: "isDigit c" and cs: "list_all isDigit cs"
    by (cases z) auto
  from c have nsp: "\<not> isSpace c" and nm: "c \<noteq> CHR ''-''" and np: "c \<noteq> CHR ''+''"
    by (auto simp: isDigit_def isSpace_def Let_def)
  have nx: "take 2 z \<noteq> ''0x''" "take 2 z \<noteq> ''0X''"
    using cs unfolding z by (cases cs; auto simp: isDigit_def Let_def)+
  have tw: "takeWhile isDigit z = z" using assms(2) by (simp add: list_all_iff)
  have tw': "takeWhile isDigit z \<noteq> []" using assms(1) unfolding tw .
  have pd: "parseIntDigits sg z = Num (sg * digitsValue 10 z)" for sg
    using nx tw' by (simp add: parseIntDigits_def Let_def tw)
  show "readInteger z = Num (digitsValue 10 z)"
    using pd [of 1] nsp nm np unfolding z by (simp add: readInteger_def)
  show "readInteger (CHR ''-'' # z) = Num (- digitsValue 10 z)"
    using pd [of "- 1"] by (simp add: readInteger_def isSpace_def)
qed

lemma readInteger_showInt: "readInteger (showInt n) = Num n"
  using showNat_digits [of "nat n"] showNat_digits [of "nat (- n)"]
  by (auto simp: showInt_def readInteger_digits)

lemma parseInt_safe: "safeInteger n \<Longrightarrow> parseInt h (Num n) = Num n"
  by (simp add: parseInt_def parseIntString_def readInteger_showInt)

lemma sanitizeIntegerRange_Num:
  assumes "map_of fs ''min'' = map_option Num lo" and "map_of fs ''max'' = map_option Num hi"
  shows "sanitizeIntegerRange h (Num n) (Obj fs) =
     (if (\<exists>l. lo = Some l \<and> n < l) then Inl (Error belowMinimumInteger)
      else if (\<exists>u. hi = Some u \<and> u < n) then Inl (Error aboveMaximumInteger)
      else Inr (Num n))"
  using assms
  by (cases lo; cases hi) (auto simp: sanitizeIntegerRange_def bindR_def jsLess_def numLess_def)

lemma sanitizeIntegerRange_NaN:
  assumes "map_of fs ''min'' = map_option Num lo" and "map_of fs ''max'' = map_option Num hi"
  shows "sanitizeIntegerRange h NaN (Obj fs) = Inr (Str [])"
  using assms
  by (cases lo; cases hi) (auto simp: sanitizeIntegerRange_def bindR_def jsLess_def numLess_def)

lemma getProp_not_RangeError: "getProp v k = Inl e \<Longrightarrow> \<not> isRangeError e"
  by (cases v) auto

lemma sanitizeIntegerRange_not_RangeError:
  "sanitizeIntegerRange h v cfg = Inl e \<Longrightarrow> \<not> isRangeError e"
  by (auto simp: sanitizeIntegerRange_def bindR_def split: sum.splits if_splits
           dest: getProp_not_RangeError)

text \<open>
  C8, as the claim states it, fails: 5 with \<^verbatim>\<open>max: 3\<close> does throw, but what is
  thrown is made by \<^verbatim>\<open>new Error(...)\<close>; the call does not fail with a
  \<^verbatim>\<open>RangeError\<close>.
\<close>

theorem sanitizeInteger_does_not_fail_with_RangeError:
  "sanitizeInteger plainHost (Num 5) (Obj [(''max'', Num 3)]) = Inl (Error aboveMaximumInteger)
 \<and> \<not> failsWithRangeError (sanitizeInteger plainHost (Num 5) (Obj [(''max'', Num 3)]))"
  by (simp add: failsWithRangeError_def parseInt_safe safeInteger_def
        sanitizeIntegerRange_def bindR_def jsLess_def numLess_def)

text \<open>
  C8, amended. \<^verbatim>\<open>sanitizeInteger\<close> removes the ASCII letters of a string
  before it reads a number, wherever they stand: \<^verbatim>\<open>"12abc"\<close> and \<^verbatim>\<open>"a12"\<close> give
  12, and the result on any string is the result on the string without the fifty-two
  letters. A string of letters only gives the empty-string sentinel and not a number,
  and so does a string without letters in which no number can be read. The number read
  is checked against the configured bounds: below \<^verbatim>\<open>min\<close> or above \<^verbatim>\<open>max\<close> the
  call throws a plain \<^verbatim>\<open>Error\<close> with the message of the bound, so 5 with
  \<^verbatim>\<open>max: 3\<close> throws, and within the bounds the number is returned. Whatever the
  call throws, on any input, is no \<^verbatim>\<open>RangeError\<close>.
\<close>

theorem sanitizeInteger_strips_letters_and_throws_Error:
  assumes "map_of fs ''min'' = map_option Num lo" and "map_of fs ''max'' = map_option Num hi"
  shows "sanitizeInteger h (Str ''12abc'') (Obj []) = Inr (Num 12)
       \<and> sanitizeInteger h (Str ''a12'') (Obj []) = Inr (Num 12)
       \<and> sanitizeInteger h (Str ''abc'') (Obj []) = Inr (Str [])
       \<and> sanitizeInteger h (Num 5) (Obj [(''max'', Num 3)]) = Inl (Error aboveMaximumInteger)
       \<and> sanitizeInteger h (Str s) cfg =
           sanitizeInteger h (Str (filter (\<lambda>c. c \<notin> set asciiLetters) s)) cfg
       \<and> (set s \<subseteq> set asciiLetters \<longrightarrow> sanitizeInteger h (Str s) cfg = Inr (Str []))
       \<and> (set s \<inter> set asciiLetters = {} \<and> parseIntString h s = NaN \<longrightarrow>
            sanitizeInteger h (Str s) (Obj fs) = Inr (Str []))
       \<and> (set s \<inter> set asciiLetters = {} \<and> parseIntString h s = Num n \<longrightarrow>
            sanitizeInteger h (Str s) (Obj fs) =
              (if (\<exists>l. lo = Some l \<and> n < l) then Inl (Error belowMinimumInteger)
               else if (\<exists>u. hi = Some u \<and> u < n) then Inl (Error aboveMaximumInteger)
               else Inr (Num n)))
       \<and> (safeInteger n \<longrightarrow>
            sanitizeInteger h (Num n) (Obj fs) =
              (if (\<exists>l. lo = Some l \<and> n < l) then Inl (Error belowMinimumInteger)
               else if (\<exists>u. hi = Some u \<and> u < n) then Inl (Error aboveMaximumInteger)
               else Inr (Num n)))
       \<and> (sanitizeInteger h v cfg = Inl e \<longrightarrow> \<not> isRangeError e)"
proof -
  have a: "sanitizeInteger h (Str ''12abc'') (Obj []) = Inr (Num 12)"
    by (simp add: parse_simps sanitizeIntegerRange_def bindR_def)
  have a': "sanitizeInteger h (Str ''a12'') (Obj []) = Inr (Num 12)"
    by (simp add: parse_simps sanitizeIntegerRange_def bindR_def)
  have b: "sanitizeInteger h (Str ''abc'') (Obj []) = Inr (Str [])"
    by (simp add: parse_simps)
  have c: "sanitizeInteger h (Num 5) (Obj [(''max'', Num 3)]) = Inl (Error aboveMaximumInteger)"
    by (simp add: parseInt_safe safeInteger_def sanitizeIntegerRange_def bindR_def jsLess_def numLess_def)
  have idem: "replaceLetters (replaceLetters s) = replaceLetters s"
    by (simp add: replaceLetters_def)
  have d: "sanitizeInteger h (Str s) cfg =
           sanitizeInteger h (Str (filter (\<lambda>c. c \<notin> set asciiLetters) s)) cfg"
    using idem by (simp add: replaceLetters_filter [symmetric])
  have e: "set s \<subseteq> set asciiLetters \<longrightarrow> sanitizeInteger h (Str s) cfg = Inr (Str [])"
  proof
    assume "set s \<subseteq> set asciiLetters"
    hence "replaceLetters s = []" by (auto simp: replaceLetters_filter filter_empty_conv)
    thus "sanitizeInteger h (Str s) cfg = Inr (Str [])" by simp
  qed
  have keep: "replaceLetters s = s" if "set s \<inter> set asciiLetters = {}"
    using that by (auto simp: replaceLetters_filter filter_id_conv)
  have str: "sanitizeInteger h (Str s) (Obj fs) = sanitizeIntegerRange h (parseIntString h s) (Obj fs)"
    if "set s \<inter> set asciiLetters = {}" and "parseIntString h s \<noteq> Str []" "s \<noteq> []"
    using keep [OF that(1)] that(3) by (simp add: parseInt_def)
  have ne: "s \<noteq> []" if "parseIntString h s = Num n" for n
    using that by (auto simp: parseIntString_def readInteger_def)
  have f0: "set s \<inter> set asciiLetters = {} \<and> parseIntString h s = NaN \<longrightarrow>
            sanitizeInteger h (Str s) (Obj fs) = Inr (Str [])"
  proof (cases "s = []")
    case True thus ?thesis by (simp add: replaceLetters_def)
  next
    case False thus ?thesis
      using str sanitizeIntegerRange_NaN [OF assms] by auto
  qed
  have f: "set s \<inter> set asciiLetters = {} \<and> parseIntString h s = Num n \<longrightarrow>
            sanitizeInteger h (Str s) (Obj fs) =
              (if (\<exists>l. lo = Some l \<and> n < l) then Inl (Error belowMinimumInteger)
               else if (\<exists>u. hi = Some u \<and> u < n) then Inl (Error aboveMaximumInteger)
               else Inr (Num n))"
    using str ne [of n] sanitizeIntegerRange_Num [OF assms, of h n] by auto
  have g: "safeInteger n \<longrightarrow>
            sanitizeInteger h (Num n) (Obj fs) =
              (if (\<exists>l. lo = Some l \<and> n < l) then Inl (Error belowMinimumInteger)
               else if (\<exists>u. hi = Some u \<and> u < n) then Inl (Error aboveMaximumInteger)
               else Inr (Num n))"
    using sanitizeIntegerRange_Num [OF assms, of h n] by (simp add: parseInt_safe)
  have i: "sanitizeInteger h v cfg = Inl e \<longrightarrow> \<not> isRangeError e"
    by (cases v) (auto simp: Let_def split: if_splits dest: sanitizeIntegerRange_not_RangeError)
  from a a' b c d e f0 f g i show ?thesis by blast
qed

theorem sanitizeInteger_strips_letters_and_throws_Error_witness:
  "sanitizeInteger plainHost (Str ''xyz'') (Obj [(''min'', Num 0), (''max'', Num 9)]) = Inr (Str [])
 \<and> sanitizeInteger plainHost (Str ''- -'') (Obj [(''min'', Num 0), (''max'', Num 9)]) = Inr (Str [])
 \<and> sanitizeInteger plainHost (Str ''42'') (Obj [(''min'', Num 0), (''max'', Num 9)])
      = Inl (Error aboveMaximumInteger)
 \<and> sanitizeInteger plainHost (Str '' 7 '') (Obj [(''min'', Num 0), (''max'', Num 9)]) = Inr (Num 7)
 \<and> sanitizeInteger plainHost (Num (- 1)) (Obj [(''min'', Num 0), (''max'', Num 9)])
      = Inl (Error belowMinimumInteger)
 \<and> \<not> isRangeError (Error belowMinimumInteger)"
proof -
  have mn: "map_of [(''min'', Num 0), (''max'', Num 9)] ''min'' = map_option Num (Some 0)"
    by simp
  have mx: "map_of [(''min'', Num 0), (''max'', Num 9)] ''max'' = map_option Num (Some 9)"
    by simp
  have l1: "set ''xyz'' \<subseteq> set asciiLetters" by (simp add: asciiLetters_def)
  have l2: "set ''- -'' \<inter> set asciiLetters = {} \<and> parseIntString plainHost ''- -'' = NaN"
    by (simp add: asciiLetters_def parse_simps)
  have l3: "set ''42'' \<inter> set asciiLetters = {} \<and> parseIntString plainHost ''42'' = Num 42"
    by (simp add: asciiLetters_def parse_simps)
  have l4: "set '' 7 '' \<inter> set asciiLetters = {} \<and> parseIntString plainHost '' 7 '' = Num 7"
    by (simp add: asciiLetters_def parse_simps)
  have l5: "safeInteger (- 1)" by (simp add: safeInteger_def)
  note t1 = sanitizeInteger_strips_letters_and_throws_Error
    [OF mn mx, where h = plainHost and s = "''xyz''" and cfg = "Obj [(''min'', Num 0), (''max'', Num 9)]"]
  note t2 = sanitizeInteger_strips_letters_and_throws_Error
    [OF mn mx, where h = plainHost and s = "''- -''"]
  note t3 = sanitizeInteger_strips_letters_and_throws_Error
    [OF mn mx, where h = plainHost and s = "''42''" and n = 42]
  note t4 = sanitizeInteger_strips_letters_and_throws_Error
    [OF mn mx, where h = plainHost and s = "'' 7 ''" and n = 7]
  note t5 = sanitizeInteger_strips_letters_and_throws_Error
    [OF mn mx, where h = plainHost and n = "- 1" and v = "Num (- 1)"
       and cfg = "Obj [(''min'', Num 0), (''max'', Num 9)]" and e = "Error belowMinimumInteger"]
  from t1 l1 have "sanitizeInteger plainHost (Str ''xyz'') (Obj [(''min'', Num 0), (''max'', Num 9)]) = Inr (Str [])"
    by blast
  moreover from t2 l2 have "sanitizeInteger plainHost (Str ''- -'') (Obj [(''min'', Num 0), (''max'', Num 9)]) = Inr (Str [])"
    by blast
  moreover from t3 l3 have "sanitizeInteger plainHost (Str ''42'') (Obj [(''min'', Num 0), (''max'', Num 9)])
      = Inl (Error aboveMaximumInteger)"
    by simp
  moreover from t4 l4 have "sanitizeInteger plainHost (Str '' 7 '') (Obj [(''min'', Num 0), (''max'', Num 9)]) = Inr (Num 7)"
    by simp
  moreover from t5 l5 have r5: "sanitizeInteger plainHost (Num (- 1)) (Obj [(''min'', Num 0), (''max'', Num 9)])
      = Inl (Error belowMinimumInteger)"
    by simp
  moreover from t5 r5 have "\<not> isRangeError (Error belowMinimumInteger)" by blast
  ultimately show ?thesis by blast
qed


section \<open>Properties of the store\<close>

lemmas store_simps = newStore_def stateChange_def flush_def notify_def callListener_def runReentry_def
  queueFlush_def consoleDebug_def consoleWarn_def dispatch_def assign_def listen_def ignore_def
  indexOf_def splice1_def nextState_def cloneState_def cloneDeepWith_def seed_def ACTION_SEED_def Let_def

lemma cycle1_fields:
  "pendingActions cycle1 = [''add'']" "draftNextState cycle1 = Null" "dirtyState cycle1 = False"
  "stateHistory cycle1 = [(''add'', Obj [(''n'', Num 0)])]" "debug cycle1" "listeners cycle1 = []"
  "state cycle1 = Obj [(''n'', Num 1)]"
  by (simp_all add: cycle1_def store_simps)

lemma flush_after_stateChange_quiet:
  "listeners s = [] \<Longrightarrow> pendingActions (flush (stateChange a d s)) = pendingActions s @ [a]"
  "listeners s = [] \<Longrightarrow> debug s \<Longrightarrow> stateHistory (flush (stateChange a d s)) =
     stateHistory s @ [(joinComma (pendingActions s @ [a]), assign (Obj []) (state s))]"
  by (simp_all add: store_simps)

text \<open>
  C1. The code at the claim's failing input. After the first cycle the draft is null
  and the store is clean, but \<^verbatim>\<open>pendingActions\<close> still holds \<^verbatim>\<open>add\<close>: \<^verbatim>\<open>flush\<close>
  never empties it. The second cycle therefore records the history entry
  \<^verbatim>\<open>add,remove\<close> for a flush that committed \<^verbatim>\<open>remove\<close> alone.
\<close>

theorem flush_leaves_pendingActions:
  "pendingActions cycle1 = [''add'']
     \<and> draftNextState cycle1 = Null \<and> dirtyState cycle1 = False
     \<and> pendingActions (flush (stateChange ''remove'' (Obj [(''n'', Num 0)]) cycle1)) = [''add'', ''remove'']
     \<and> map fst (stateHistory (flush (stateChange ''remove'' (Obj [(''n'', Num 0)]) cycle1)))
         = [''add'', ''add,remove'']"
  by (simp add: cycle1_fields flush_after_stateChange_quiet)

text \<open>
  C6. The code at the claim's failing input: the first of two listeners calls
  \<^verbatim>\<open>stateChange\<close> while it is notified. The store is still dirty at that moment, so no
  flush is requested (the count stays at the one request of the first change); when
  \<^verbatim>\<open>notify\<close> ends it clears the dirty flag. The store is left clean with the
  listener's state as an unflushed draft.
\<close>

theorem stateChange_during_notify_is_stranded:
  "(let s0 = (newStore ''u'')\<lparr>state := Obj [(''n'', Num 0)],
               listeners := [Listener 1 [StateChange ''again'' (Obj [(''n'', Num 2)])], Listener 2 []]\<rparr>;
        s1 = stateChange ''first'' (Obj [(''n'', Num 1)]) s0;
        s2 = flush s1
    in dirtyState s1 \<and> flushRequests s1 = 1
     \<and> state s2 = Obj [(''n'', Num 1)]
     \<and> draftNextState s2 = Obj [(''n'', Num 2)]
     \<and> dirtyState s2 = False
     \<and> flushRequests s2 = 1
     \<and> listenerCalls s2 = [(1, Obj [(''n'', Num 1)], Obj [(''n'', Num 0)]),
                            (2, Obj [(''n'', Num 1)], Obj [(''n'', Num 0)])])"
  by (simp add: store_simps)

text \<open>
  C7. The code at the claim's failing input: three callbacks are registered and get
  the handles 1, 2 and 3. Once the first is removed, handle 2 removes the third
  callback, not the second, and handle 3 removes nothing and still answers true.
\<close>

theorem ignore_by_handle_after_removal:
  "(let s0 = newStore ''u'';
        (h1, s1) = listen (Listener 1 []) s0;
        (h2, s2) = listen (Listener 2 []) s1;
        (h3, s3) = listen (Listener 3 []) s2;
        (r1, s4) = ignore (ByHandle h1) s3;
        (r2, s5) = ignore (ByHandle h2) s4;
        (r3, s6) = ignore (ByHandle h3) s5
    in (h1, h2, h3) = (1, 2, 3)
     \<and> r1 \<and> listeners s4 = [Listener 2 [], Listener 3 []]
     \<and> r2 \<and> listeners s5 = [Listener 2 []]
     \<and> r3 \<and> listeners s6 = [Listener 2 []])"
  by (simp add: store_simps)

text \<open>
  C2. The code at the claim's failing input: the draft defines \<^verbatim>\<open>b\<close> and then
  \<^verbatim>\<open>a\<close> (undefined), the payload defines \<^verbatim>\<open>a\<close> only. The loop reaches \<^verbatim>\<open>b\<close> first,
  finds it missing from the payload and returns from \<^verbatim>\<open>seed\<close>: \<^verbatim>\<open>a\<close> stays
  undefined and nothing is dispatched. With the keys in the other order \<^verbatim>\<open>a\<close> is set
  before the return, and still nothing is dispatched.
\<close>

theorem seed_returns_at_first_missing_key:
  "(let s0 = (newStore ''u'')\<lparr>state := Obj [(''b'', Num 2), (''a'', Undefined)]\<rparr>;
        (r, s1) = seed (Obj [(''state'', Obj [(''a'', Num 1)])]) s0;
        t0 = (newStore ''u'')\<lparr>state := Obj [(''a'', Undefined), (''b'', Num 2)]\<rparr>;
        (q, t1) = seed (Obj [(''state'', Obj [(''a'', Num 1)])]) t0
    in r = Inr ()
     \<and> draftNextState s1 = Obj [(''b'', Num 2), (''a'', Undefined)]
     \<and> dispatched s1 = []
     \<and> q = Inr ()
     \<and> draftNextState t1 = Obj [(''a'', Num 1), (''b'', Num 2)]
     \<and> dispatched t1 = [])"
  by (simp add: store_simps)

text \<open>
  C4. The code at the claim's failing inputs: \<^verbatim>\<open>typeof null\<close> is \<^verbatim>\<open>'object'\<close>, so a
  null item, a null payload and a payload whose \<^verbatim>\<open>state\<close> is null all pass the guard,
  and the next property read raises a \<^verbatim>\<open>TypeError\<close>.
\<close>

theorem null_misuse_raises:
  "returned (upsertItem plainHost (Arr []) (Num 1) Null False) = Inl TypeError
 \<and> fst (seed Null ((newStore ''u'')\<lparr>state := Obj [(''a'', Undefined)]\<rparr>)) = Inl TypeError
 \<and> fst (seed (Obj [(''state'', Null)]) ((newStore ''u'')\<lparr>state := Obj [(''a'', Undefined)]\<rparr>)) = Inl TypeError"
  by (simp add: store_simps upsertItem_def)

section \<open>Properties of the keyed collection helpers\<close>

lemma typeof_object_cases:
  "typeof v = ''object'' \<Longrightarrow> v \<noteq> Null \<Longrightarrow>
     (\<exists>xs. v = Arr xs) \<or> (\<exists>fs. v = Obj fs) \<or> (\<exists>t. v = DateV t) \<or> (\<exists>t. v = Moment t)"
  by (cases v) auto

lemma upsertItem_not_object:
  "typeof newItem \<noteq> ''object'' \<Longrightarrow>
     upsertItem h modelArray keyValue newItem overwrite =
       \<lparr> returned = Inr False,
         warnings = (if \<not> isArray modelArray then [Warn ''Non array passed in as modelArray'' []] else [])
                    @ [Warn ''Upserted item must be an object'' [Str (typeof newItem), Str ''given'']],
         collection = modelArray, item = newItem \<rparr>"
  by (cases modelArray) (simp_all add: upsertItem_def Let_def)

lemma upsertItem_conflict:
  "typeof newItem = ''object'' \<Longrightarrow> getProp newItem ''__bID'' = Inr bid \<Longrightarrow>
   typeof bid \<noteq> ''undefined'' \<Longrightarrow> \<not> strictEq bid keyValue \<Longrightarrow>
     upsertItem h modelArray keyValue newItem overwrite =
       \<lparr> returned = Inr False,
         warnings = (if \<not> isArray modelArray then [Warn ''Non array passed in as modelArray'' []] else [])
                    @ [Warn ''Upserted item does not match the keyValue passed in'' [bid, Str ''!='', keyValue]],
         collection = modelArray, item = newItem \<rparr>"
  by (cases modelArray) (simp_all add: upsertItem_def Let_def)

lemma upsertItem_accepted:
  "typeof newItem = ''object'' \<Longrightarrow> \<not> conflicting newItem keyValue \<Longrightarrow>
     returned (upsertItem h modelArray keyValue newItem overwrite) \<noteq> Inr False"
  by (cases modelArray)
     (auto simp: upsertItem_def Let_def conflicting_def split: sum.splits option.splits)

lemma upsertItem_non_array_accepted:
  "typeof newItem = ''object'' \<Longrightarrow> newItem \<noteq> Null \<Longrightarrow> \<not> conflicting newItem keyValue \<Longrightarrow>
   \<not> isArray modelArray \<Longrightarrow>
     returned (upsertItem h modelArray keyValue newItem overwrite) = Inr True
   \<and> warnings (upsertItem h modelArray keyValue newItem overwrite) = [Warn ''Non array passed in as modelArray'' []]
   \<and> collection (upsertItem h modelArray keyValue newItem overwrite) = modelArray"
  apply (drule (1) typeof_object_cases)
  apply (cases modelArray)
  apply (auto simp: upsertItem_def Let_def conflicting_def split: sum.splits option.splits)
  done

lemma upsertItem_rejected_iff:
  "returned (upsertItem h modelArray keyValue newItem overwrite) = Inr False
     \<longleftrightarrow> typeof newItem \<noteq> ''object'' \<or> conflicting newItem keyValue"
proof (cases "typeof newItem = ''object''")
  case False
  then show ?thesis by (simp add: upsertItem_not_object)
next
  case obj: True
  show ?thesis
  proof (cases "conflicting newItem keyValue")
    case True
    then obtain bid where "getProp newItem ''__bID'' = Inr bid" "typeof bid \<noteq> ''undefined''"
        "\<not> strictEq bid keyValue"
      by (auto simp: conflicting_def split: sum.splits)
    with obj True show ?thesis by (simp add: upsertItem_conflict)
  next
    case False
    with obj show ?thesis by (simp add: upsertItem_accepted)
  qed
qed

lemma upsertItem_rejected_effects:
  assumes "returned (upsertItem h modelArray keyValue newItem overwrite) = Inr False"
  shows "warnings (upsertItem h modelArray keyValue newItem overwrite) \<noteq> []
       \<and> collection (upsertItem h modelArray keyValue newItem overwrite) = modelArray
       \<and> item (upsertItem h modelArray keyValue newItem overwrite) = newItem"
proof (cases "typeof newItem = ''object''")
  case False
  then show ?thesis by (simp add: upsertItem_not_object)
next
  case obj: True
  with assms have "conflicting newItem keyValue" by (simp add: upsertItem_rejected_iff)
  then obtain bid where "getProp newItem ''__bID'' = Inr bid" "typeof bid \<noteq> ''undefined''"
      "\<not> strictEq bid keyValue"
    by (auto simp: conflicting_def split: sum.splits)
  with obj show ?thesis by (simp add: upsertItem_conflict)
qed

text \<open>
  C5, as the claim states it, fails: handed something that is no array, together with
  an acceptable item, \<^verbatim>\<open>upsertItem\<close> returns true.
\<close>

theorem upsertItem_non_array_returns_true:
  "returned (upsertItem plainHost (Str ''no array'') (Num 1) (Obj [(''name'', Str ''x'')]) False) = Inr True
 \<and> returned (upsertItem plainHost (Str ''no array'') (Num 1) (Obj [(''name'', Str ''x'')]) False) \<noteq> Inr False"
  by (simp add: upsertItem_def)

text \<open>
  C5, amended. For an item other than null and a primitive key, \<^verbatim>\<open>upsertItem\<close>
  returns false in exactly two cases: the item is not of type object, or it carries an
  identity key other than the key given. In both it logs a warning and leaves the
  caller's collection and item as they were. A collection that is no array is not a
  reason to return false: a warning is logged, the call goes on with an empty array of
  its own, the caller's collection stays as it was, and for an acceptable item the
  call returns true.
\<close>

theorem upsertItem_returns_false_iff:
  assumes "newItem \<noteq> Null" and "primitive keyValue"
  shows "(returned (upsertItem h modelArray keyValue newItem overwrite) = Inr False
            \<longleftrightarrow> typeof newItem \<noteq> ''object'' \<or> conflicting newItem keyValue)
       \<and> (returned (upsertItem h modelArray keyValue newItem overwrite) = Inr False \<longrightarrow>
            warnings (upsertItem h modelArray keyValue newItem overwrite) \<noteq> []
          \<and> collection (upsertItem h modelArray keyValue newItem overwrite) = modelArray
          \<and> item (upsertItem h modelArray keyValue newItem overwrite) = newItem)
       \<and> (\<not> isArray modelArray \<and> typeof newItem = ''object'' \<and> \<not> conflicting newItem keyValue \<longrightarrow>
            returned (upsertItem h modelArray keyValue newItem overwrite) = Inr True
          \<and> warnings (upsertItem h modelArray keyValue newItem overwrite)
              = [Warn ''Non array passed in as modelArray'' []]
          \<and> collection (upsertItem h modelArray keyValue newItem overwrite) = modelArray)"
  using assms upsertItem_rejected_iff upsertItem_rejected_effects upsertItem_non_array_accepted
  by blast

theorem upsertItem_returns_false_iff_witness:
  "returned (upsertItem plainHost Undefined (Num 1) (Obj [(''name'', Str ''x'')]) False) = Inr True
 \<and> warnings (upsertItem plainHost Undefined (Num 1) (Obj [(''name'', Str ''x'')]) False)
      = [Warn ''Non array passed in as modelArray'' []]
 \<and> collection (upsertItem plainHost Undefined (Num 1) (Obj [(''name'', Str ''x'')]) False) = Undefined
 \<and> returned (upsertItem plainHost (Arr []) (Num 1) (Obj [(''__bID'', Num 2)]) False) = Inr False
 \<and> collection (upsertItem plainHost (Arr []) (Num 1) (Obj [(''__bID'', Num 2)]) False) = Arr []"
proof -
  have ok: "Obj [(''name'', Str ''x'')] \<noteq> Null" "Obj [(''__bID'', Num 2)] \<noteq> Null" "primitive (Num 1)"
    by simp_all
  have a: "\<not> isArray Undefined \<and> typeof (Obj [(''name'', Str ''x'')]) = ''object''
           \<and> \<not> conflicting (Obj [(''name'', Str ''x'')]) (Num 1)"
    by (simp add: conflicting_def)
  have b: "conflicting (Obj [(''__bID'', Num 2)]) (Num 1)"
    by (simp add: conflicting_def)
  from upsertItem_returns_false_iff [OF ok(1) ok(3), of plainHost Undefined False] a
       upsertItem_returns_false_iff [OF ok(2) ok(3), of plainHost "Arr []" False] b
  show ?thesis by blast
qed

section \<open>Properties of the schema engine\<close>

lemmas validate_simps = validateBody_def validateRule_def validateSwitch_def bindO_def bindR_def
  concatValue_def callFunction_def requiredField_def

lemma validateRules_stop:
  "errors \<noteq> [] \<Longrightarrow> validateRules self h obj sf field rules errors = Some (Inr errors)"
  by (cases rules) simp_all

lemma getProp_ok: "sf \<noteq> Null \<Longrightarrow> sf \<noteq> Undefined \<Longrightarrow> \<exists>v. getProp sf k = Inr v"
  by (cases sf) auto

text \<open>
  Once the error list is not empty, the outer loop still reads the descriptor of every
  later field, and nothing else: no value is read, no rule is evaluated.
\<close>

lemma validateFields_stop:
  "errors \<noteq> [] \<Longrightarrow> list_all (readable schema) ks \<Longrightarrow>
     validateFields self h obj schema ks errors = Some (Inr errors)"
proof (induction ks)
  case Nil
  then show ?case by simp
next
  case (Cons f ks)
  from Cons.prems obtain sf where sf: "getProp schema f = Inr sf" "sf \<noteq> Null" "sf \<noteq> Undefined"
    by (auto simp: readable_def split: sum.splits)
  then obtain vd where vd: "getProp sf ''validation'' = Inr vd"
    using getProp_ok by blast
  from Cons show ?case
    by (simp add: sf vd bindO_def validateRules_stop)
qed

lemma validateFields_append:
  "validateFields self h obj schema (fs @ gs) errors =
     bindO (validateFields self h obj schema fs errors) (validateFields self h obj schema gs)"
proof (induction fs arbitrary: errors)
  case Nil
  then show ?case by (simp add: bindO_def)
next
  case (Cons f fs)
  show ?case
    by (auto simp: bindO_def Cons split: option.splits sum.splits)
qed

lemma validateFields_cong:
  "list_all (\<lambda>f. getProp s1 f = getProp s2 f) ks \<Longrightarrow>
     validateFields self h obj s1 ks errors = validateFields self h obj s2 ks errors"
proof (induction ks arbitrary: errors)
  case Nil
  then show ?case by simp
next
  case (Cons f ks)
  then show ?case by (auto simp: bindO_def split: option.splits sum.splits)
qed

lemma getProp_append_left:
  "list_all (\<lambda>f. getProp (Obj (fs1 @ fs2)) f = getProp (Obj fs1) f) (map fst fs1)"
  by (auto simp: list_all_iff map_add_def split: option.splits dest: map_of_SomeD weak_map_of_SomeI)

text \<open>
  C3, as the claim states it, fails: the rule of field \<^verbatim>\<open>b\<close> fails on its own, and
  after the failing field \<^verbatim>\<open>a\<close> its message is missing from the result.
\<close>

theorem validate_later_field_suppressed:
  "validate 1 plainHost (Obj []) (Obj [(''b'', requiredField)]) = Some (Inr (Arr [Str ''b is required'']))
 \<and> validate 1 plainHost (Obj []) (Obj [(''a'', requiredField), (''b'', requiredField)])
      = Some (Inr (Arr [Str ''a is required'']))"
  by (simp add: validate_simps)

text \<open>
  C3, amended. \<^verbatim>\<open>validate\<close> keeps one error list for the whole call and tests it
  before every rule. When the fields up to some point produce the errors \<open>errs\<close>, the
  result stays \<open>errs\<close> whatever fields follow: no rule of a later field is evaluated,
  and no further rule of the failing field either.
\<close>

theorem validate_stops_after_first_error:
  assumes first: "validate (Suc fuel) h obj (Obj fs1) = Some (Inr (Arr errs))"
      and later: "list_all (readable (Obj (fs1 @ fs2))) (map fst fs2)"
  shows "validate (Suc fuel) h obj (Obj (fs1 @ fs2)) = Some (Inr (Arr errs))
       \<and> errs \<noteq> []
       \<and> validateRules self h obj sf field rules errs = Some (Inr errs)"
proof -
  from first obtain es where
    es: "validateFields (validate fuel h) h obj (Obj fs1) (map fst fs1) [] = Some (Inr es)"
    and res: "(if length es > 0 then Arr es else Bool True) = Arr errs"
    by (auto simp: validateBody_def bindO_def split: option.splits sum.splits)
  from res have ne: "errs \<noteq> []" and eq: "es = errs"
    by (auto split: if_splits)
  have "validateFields (validate fuel h) h obj (Obj (fs1 @ fs2)) (map fst fs1) []
          = Some (Inr errs)"
    using validateFields_cong [OF getProp_append_left] es eq by simp
  then have "validateFields (validate fuel h) h obj (Obj (fs1 @ fs2)) (map fst fs1 @ map fst fs2) []
          = Some (Inr errs)"
    by (simp add: validateFields_append bindO_def validateFields_stop [OF ne later])
  then have "validate (Suc fuel) h obj (Obj (fs1 @ fs2)) = Some (Inr (Arr errs))"
    using ne by (simp add: validateBody_def bindO_def)
  with ne show ?thesis by (simp add: validateRules_stop)
qed

theorem validate_stops_after_first_error_witness:
  "validate 1 plainHost (Obj []) (Obj ([(''a'', requiredField)] @ [(''b'', requiredField)]))
      = Some (Inr (Arr [Str ''a is required'']))
   \<and> validateRules (validate 0 plainHost) plainHost (Obj []) requiredField ''a'' [''minLength'']
        [Str ''a is required''] = Some (Inr [Str ''a is required''])"
proof -
  have first: "validate (Suc 0) plainHost (Obj []) (Obj [(''a'', requiredField)])
                 = Some (Inr (Arr [Str ''a is required'']))"
    by (simp add: validate_simps)
  have later: "list_all (readable (Obj ([(''a'', requiredField)] @ [(''b'', requiredField)])))
                 (map fst [(''b'', requiredField)])"
    by (simp add: readable_def requiredField_def)
  from validate_stops_after_first_error [OF first later,
         of "validate 0 plainHost" requiredField "''a''" "[''minLength'']"]
  show ?thesis by simp
qed

lemma update_fresh: "k \<notin> fst ` set al \<Longrightarrow> AList.update k v al = al @ [(k, v)]"
  by (induction al) auto

lemma sanitizeFields_zip:
  assumes "distinct ks" and "set ks \<inter> fst ` set clean = {}"
  shows "sanitizeFields selfField schema json tmp ks clean =
           bindO (mapO (\<lambda>k. selfField k schema json tmp) ks)
             (\<lambda>vs. Some (Inr (clean @ zip ks vs)))"
  using assms
proof (induction ks arbitrary: clean)
  case Nil
  show ?case by (simp add: bindO_def)
next
  case (Cons k ks)
  have u: "AList.update k v clean = clean @ [(k, v)]" for v
    using Cons.prems by (intro update_fresh) auto
  have ih: "sanitizeFields selfField schema json tmp ks (clean @ [(k, v)]) =
           bindO (mapO (\<lambda>k. selfField k schema json tmp) ks)
             (\<lambda>vs. Some (Inr ((clean @ [(k, v)]) @ zip ks vs)))" for v
    using Cons.prems by (intro Cons.IH) auto
  show ?case
    by (cases "selfField k schema json tmp")
       (auto simp: bindO_def u ih split: option.splits sum.splits)
qed

lemma mapO_length: "mapO f xs = Some (Inr ys) \<Longrightarrow> length ys = length xs"
  by (induction xs arbitrary: ys) (auto simp: bindO_def split: option.splits sum.splits)

lemma mapO_all:
  "(\<forall>x \<in> set xs. \<exists>y. f x = Some (Inr y)) \<Longrightarrow> \<exists>ys. mapO f xs = Some (Inr ys)"
  by (induction xs) (auto simp: bindO_def)

lemma mapO_some:
  "(\<forall>x \<in> set xs. f x \<noteq> None) \<Longrightarrow> mapO f xs \<noteq> None"
  by (induction xs) (auto simp: bindO_def split: option.splits sum.splits)

lemma extendProps_lookup:
  assumes "distinct (map fst ofs)" and "fst ` set ofs \<inter> fst ` set t = {}"
  shows "\<exists>t'. extendProps (Obj t) ofs = Obj t' \<and>
           (\<forall>k. map_of t' k = (case map_of ofs k of
                                  None \<Rightarrow> map_of t k
                                | Some c \<Rightarrow> if c = Undefined then map_of t k else Some (inputCopy c)))"
  using assms
proof (induction ofs arbitrary: t)
  case Nil
  show ?case by simp
next
  case (Cons p ofs)
  obtain name copy where p: "p = (name, copy)" by (cases p)
  from Cons.prems p have fresh: "name \<notin> fst ` set t" and nrest: "name \<notin> fst ` set ofs"
    and d: "distinct (map fst ofs)" and disj: "fst ` set ofs \<inter> fst ` set t = {}"
    by auto
  from fresh have none: "map_of t name = None" by (simp add: map_of_eq_None_iff)
  have cl: "extendClone (Obj t) name copy = (if isArray copy then Arr [] else Obj [])"
    by (simp add: extendClone_def none)
  have w: "(if isPlainObject copy \<or> isArray copy
            then extendDeep (extendClone (Obj t) name copy) copy else copy) = inputCopy copy"
    using cl by (cases copy) (simp_all add: inputCopy_def)
  have nr: "map_of ofs name = None" using nrest by (simp add: map_of_eq_None_iff)
  show ?case
  proof (cases "copy = Undefined")
    case True
    hence s: "extendSet (Obj t) name copy (extendDeep (extendClone (Obj t) name copy) copy) = Obj t"
      by (simp add: extendSet_def)
    from Cons.IH [OF d disj] obtain t' where
      t': "extendProps (Obj t) ofs = Obj t'"
      and l: "\<forall>k. map_of t' k = (case map_of ofs k of
                                  None \<Rightarrow> map_of t k
                                | Some c \<Rightarrow> if c = Undefined then map_of t k else Some (inputCopy c))"
      by blast
    show ?thesis unfolding p using True s t' l none nr by (auto split: option.splits)
  next
    case False
    hence s: "extendSet (Obj t) name copy (extendDeep (extendClone (Obj t) name copy) copy)
               = Obj (t @ [(name, inputCopy copy)])"
      using w by (simp add: extendSet_def Let_def update_fresh [OF fresh])
    have disj': "fst ` set ofs \<inter> fst ` set (t @ [(name, inputCopy copy)]) = {}"
      using disj nrest by auto
    from Cons.IH [OF d disj'] obtain t' where
      t': "extendProps (Obj (t @ [(name, inputCopy copy)])) ofs = Obj t'"
      and l: "\<forall>k. map_of t' k = (case map_of ofs k of
                    None \<Rightarrow> map_of (t @ [(name, inputCopy copy)]) k
                  | Some c \<Rightarrow> if c = Undefined then map_of (t @ [(name, inputCopy copy)]) k
                              else Some (inputCopy c))"
      by blast
    show ?thesis unfolding p using False s t' l none nr
      by (auto split: option.splits simp: map_add_def)
  qed
qed

lemma inputCopy_Undefined: "inputCopy Undefined = Undefined"
  by (simp add: inputCopy_def)

lemma tmp_lookup:
  assumes "distinct (map fst ofs)"
  shows "getProp (extendDeep (Obj []) (Obj ofs)) k =
           Inr (inputCopy (case map_of ofs k of None \<Rightarrow> Undefined | Some c \<Rightarrow> c))"
proof -
  from extendProps_lookup [OF assms, of "[]"] obtain t' where
    t': "extendProps (Obj []) ofs = Obj t'"
    and l: "\<forall>k. map_of t' k = (case map_of ofs k of
                  None \<Rightarrow> map_of [] k
                | Some c \<Rightarrow> if c = Undefined then map_of [] k else Some (inputCopy c))"
    by auto
  show ?thesis using t' l by (auto simp: inputCopy_Undefined split: option.splits)
qed

lemma mapO_zip:
  "mapO f xs = Some (Inr ys) \<Longrightarrow> distinct xs \<Longrightarrow> x \<in> set xs \<Longrightarrow>
     \<exists>y. map_of (zip xs ys) x = Some y \<and> f x = Some (Inr y)"
proof (induction xs arbitrary: ys)
  case Nil
  then show ?case by simp
next
  case (Cons a xs)
  from Cons.prems(1) obtain y ys' where
    a: "f a = Some (Inr y)" and r: "mapO f xs = Some (Inr ys')" and ys: "ys = y # ys'"
    by (auto simp: bindO_def split: option.splits sum.splits)
  show ?case
  proof (cases "x = a")
    case True
    thus ?thesis using a ys by simp
  next
    case False
    with Cons.prems have "x \<in> set xs" "distinct xs" by auto
    from Cons.IH [OF r this(2) this(1)] False show ?thesis unfolding ys by simp
  qed
qed

lemma typeof_undefined: "typeof v = ''undefined'' \<longleftrightarrow> v = Undefined"
  by (cases v) simp_all

lemma strictEq_Null: "strictEq v Null \<longleftrightarrow> v = Null"
  by (cases v) auto

lemma strictEq_Str: "strictEq v (Str s) \<longleftrightarrow> v = Str s"
  by (cases v) auto

lemma sanitize_as_map:
  assumes "distinct (map fst sfs)"
  shows "sanitize (Suc n) h obj (Obj sfs) json =
           bindO (mapO (\<lambda>f. sanitizeField n h f (Obj sfs) json (extendDeep (Obj []) obj)) (map fst sfs))
             (\<lambda>vs. Some (Inr (Obj (zip (map fst sfs) vs))))"
proof -
  have "sanitizeFields (\<lambda>field sch j tmp. sanitizeField n h field sch j tmp) (Obj sfs) json
          (extendDeep (Obj []) obj) (map fst sfs) [] =
        bindO (mapO (\<lambda>f. sanitizeField n h f (Obj sfs) json (extendDeep (Obj []) obj)) (map fst sfs))
             (\<lambda>vs. Some (Inr ([] @ zip (map fst sfs) vs)))"
    using assms by (intro sanitizeFields_zip) auto
  thus ?thesis
    by (simp add: sanitizeBody_def bindO_def split: option.splits sum.splits)
qed

lemma bindO_Inr: "bindO (Some (Inr x)) f = f x"
  by (simp add: bindO_def)

lemma bindO_not_None: "m \<noteq> None \<Longrightarrow> (\<And>x. f x \<noteq> None) \<Longrightarrow> bindO m f \<noteq> None"
  by (auto simp: bindO_def split: option.splits sum.splits)

lemma sanitizeField_rule:
  assumes ds: "distinct (map fst sfs)" and dobj: "distinct (map fst ofs)"
      and fld: "(k, Obj props) \<in> set sfs"
      and ty: "getProp (Obj props) ''type'' = Inr ty"
      and inp: "getProp (Obj ofs) k = Inr input"
  shows "sanitizeField (Suc m) h k (Obj sfs) json (extendDeep (Obj []) (Obj ofs)) =
          (if ty = Str ''function'' then Some (getProp (Obj props) ''value'')
           else bindO (Some (populatedFrom h (Obj props) (inputCopy input))) (\<lambda>v.
                  if v = Null \<and> ty \<noteq> Str ''obj'' \<and> ty \<noteq> Str ''object'' then Some (Inr Null)
                  else sanitizeByType (sanitize m h) (sanitizeField m h) h ty v
                         (Obj (AList.update ''field'' (Str k) props)) json))"
proof -
  from ds fld have "map_of sfs k = Some (Obj props)" by (rule map_of_is_SomeI)
  hence sf: "getProp (Obj sfs) k = Inr (Obj props)" by simp
  from inp have "input = (case map_of ofs k of None \<Rightarrow> Undefined | Some c \<Rightarrow> c)" by simp
  with tmp_lookup [OF dobj, of k]
  have v0: "getProp (extendDeep (Obj []) (Obj ofs)) k = Inr (inputCopy input)" by simp
  have pf: "(if typeof (inputCopy input) = ''undefined'' then
                  bindO (Some (getProp (Obj props) ''initial'')) (\<lambda>initial.
                    if typeof initial \<noteq> ''undefined'' then Some (callFunction h initial [])
                    else Some (Inr Null))
                else Some (Inr (inputCopy input)))
            = Some (populatedFrom h (Obj props) (inputCopy input))"
    by (auto simp: populatedFrom_def ownProperty_def bindO_def typeof_undefined split: option.splits)
  have "sanitizeField (Suc m) h k (Obj sfs) json (extendDeep (Obj []) (Obj ofs)) =
        sanitizeFieldBody (sanitize m h) (sanitizeField m h) h k (Obj sfs) json
          (extendDeep (Obj []) (Obj ofs))"
    by simp
  also have "\<dots> = (if ty = Str ''function'' then Some (getProp (Obj props) ''value'')
           else bindO (Some (populatedFrom h (Obj props) (inputCopy input))) (\<lambda>v.
                  if v = Null \<and> ty \<noteq> Str ''obj'' \<and> ty \<noteq> Str ''object'' then Some (Inr Null)
                  else sanitizeByType (sanitize m h) (sanitizeField m h) h ty v
                         (Obj (AList.update ''field'' (Str k) props)) json))"
    unfolding sanitizeFieldBody_def
    by (simp only: sf ty v0 bindO_Inr pf strictEq_Str strictEq_Null setProp.simps)
  finally show ?thesis .
qed

lemma sanitizeByType_some:
  assumes "\<forall>s \<in> set nestingTypes. ty \<noteq> Str s"
  shows "sanitizeByType S F h ty v sf json \<noteq> None"
proof -
  from assms have n: "ty \<noteq> Str ''obj''" "ty \<noteq> Str ''object''" "ty \<noteq> Str ''array''"
    "ty \<noteq> Str ''collection''"
    by (simp_all add: nestingTypes_def)
  have c: "bindO (Some (getProp sf ''sanitize'')) (\<lambda>custom.
             if typeof custom \<noteq> ''undefined'' then Some (callFunction h custom [v, sf])
             else Some (Inr Undefined)) \<noteq> None"
    by (rule bindO_not_None) simp_all
  show ?thesis
    unfolding sanitizeByType_def using n c by (simp only: if_False split: if_splits) simp
qed

lemma bindO_Some_returns:
  "(\<exists>y. bindO (Some r) f = Some y) = (\<forall>x. r = Inr x \<longrightarrow> (\<exists>y. f x = Some y))"
  by (cases r) (auto simp: bindO_def)

lemma bindO_returns:
  "(\<exists>y. bindO m f = Some y) =
     ((\<exists>y. m = Some y) \<and> (\<forall>x. m = Some (Inr x) \<longrightarrow> (\<exists>y. f x = Some y)))"
  by (cases m) (auto simp: bindO_def split: sum.splits)

lemma sanitizeField_some:
  assumes "\<And>sf. getProp schema f = Inr sf \<Longrightarrow> \<forall>s \<in> set nestingTypes. getProp sf ''type'' \<noteq> Inr (Str s)"
  shows "\<exists>r. sanitizeField (Suc m) h f schema json tmp = Some r"
proof -
  have bt: "\<exists>y. sanitizeByType S F h ty v sf' json = Some y"
    if "getProp schema f = Inr sf" and "getProp sf ''type'' = Inr ty" for S F ty v sf sf'
    using sanitizeByType_some [of ty S F h v sf' json] assms [OF that(1)] that(2) by auto
  show ?thesis
    by (simp add: sanitizeFieldBody_def bindO_Some_returns bt) (auto simp: bindO_returns bt)
qed

lemma mapO_returns:
  "(\<forall>x \<in> set xs. \<exists>r. f x = Some r) \<Longrightarrow> \<exists>r. mapO f xs = Some r"
  by (induction xs) (auto simp: bindO_returns)

lemma bindO_cong_Some:
  "(\<And>x. r = Inr x \<Longrightarrow> f x = g x) \<Longrightarrow> bindO (Some r) f = bindO (Some r) g"
  by (cases r) (auto simp: bindO_def)

lemma bindO_cong_any:
  "(\<And>x. m = Some (Inr x) \<Longrightarrow> f x = g x) \<Longrightarrow> bindO m f = bindO m g"
  by (cases m) (auto simp: bindO_def split: sum.splits)

lemma sanitizeByType_flat:
  assumes "\<forall>s \<in> set nestingTypes. ty \<noteq> Str s"
  shows "sanitizeByType S F h ty v sf json = sanitizeByType S' F' h ty v sf json"
  using assms by (simp add: sanitizeByType_def nestingTypes_def)

lemma sanitizeFieldBody_flat:
  assumes "\<And>sf. getProp schema f = Inr sf \<Longrightarrow> \<forall>s \<in> set nestingTypes. getProp sf ''type'' \<noteq> Inr (Str s)"
  shows "sanitizeFieldBody S F h f schema json tmp = sanitizeFieldBody S' F' h f schema json tmp"
  unfolding sanitizeFieldBody_def
  apply (rule bindO_cong_Some)
  apply (rule bindO_cong_Some)
  apply (rule if_cong [OF refl refl])
  apply (rule bindO_cong_Some)
  apply (rule bindO_cong_any)
  apply (rule if_cong [OF refl refl])
  apply (rule bindO_cong_Some)
  apply (rule sanitizeByType_flat)
  using assms apply auto
  done

lemma mapO_cong: "(\<And>x. x \<in> set xs \<Longrightarrow> f x = g x) \<Longrightarrow> mapO f xs = mapO g xs"
  by (induction xs) simp_all

lemma sanitize1_run:
  "sanitize (Suc (Suc 0)) defaultsHost (Obj input1) (Obj schema1) False =
     Some (Inr (Obj [(''n'', Num 12), (''s'', Null), (''d'', Num 7), (''f'', Fun 9), (''c'', Undefined)]))"
  by (simp add: input1_def schema1_def defaultsHost_def plainHost_def
       sanitizeBody_def sanitizeFieldBody_def sanitizeByType_def bindO_def bindR_def
       parse_simps sanitizeIntegerRange_def callFunction_def extendSet_def extendClone_def)

lemma fields1_run:
  "\<forall>f \<in> fst ` set schema1.
     \<exists>v. sanitizeField (Suc 0) defaultsHost f (Obj schema1) False (extendDeep (Obj []) (Obj input1))
           = Some (Inr v)"
  by (simp add: input1_def schema1_def defaultsHost_def plainHost_def
       sanitizeFieldBody_def sanitizeByType_def bindO_def bindR_def
       parse_simps sanitizeIntegerRange_def callFunction_def extendSet_def extendClone_def)

text \<open>
  C10, as the claim states it, fails. The fields of the result are those of the
  schema, but not every one is populated from the input, from \<^verbatim>\<open>initial()\<close> or as
  \<^verbatim>\<open>null\<close>: a field of a type without a case holds \<^verbatim>\<open>undefined\<close> where the input
  holds 5, and a field of type \<^verbatim>\<open>function\<close> holds the descriptor's \<^verbatim>\<open>value\<close> where
  the input holds 3.
\<close>

theorem sanitize_field_from_neither_input_nor_default:
  "sanitize (Suc (Suc 0)) plainHost (Obj [(''c'', Num 5), (''f'', Num 3)])
     (Obj [(''c'', Obj [(''type'', Str ''money'')]),
           (''f'', Obj [(''type'', Str ''function''), (''value'', Fun 9)])]) False
     = Some (Inr (Obj [(''c'', Undefined), (''f'', Fun 9)]))
 \<and> populatedFrom plainHost (Obj [(''type'', Str ''money'')]) (Num 5) = Inr (Num 5)
 \<and> populatedFrom plainHost (Obj [(''type'', Str ''function''), (''value'', Fun 9)]) (Num 3) = Inr (Num 3)"
  by (simp add: populatedFrom_def sanitizeBody_def sanitizeFieldBody_def sanitizeByType_def
        bindO_def bindR_def extendSet_def extendClone_def)

text \<open>
  C10, amended. For an input object and a schema whose fields are not named
  like members of \<^verbatim>\<open>Object.prototype\<close>, \<^verbatim>\<open>sanitize\<close> is the field-by-field map of
  \<^verbatim>\<open>sanitizeField\<close> over the schema: it returns exactly when every field does, and
  what it returns has the fields of the schema as its own properties, in the schema's
  order, and no other, so that a field of the input the schema does not name is
  dropped; each field holds what \<^verbatim>\<open>sanitizeField\<close> returned for it. A schema none
  of whose fields is of an object or array type needs no more than two levels of calls:
  \<^verbatim>\<open>sanitize\<close> returns or throws, and more fuel gives the same. The value of a field is: the descriptor's
  \<^verbatim>\<open>value\<close> when the type is \<^verbatim>\<open>function\<close>, whatever the input holds; otherwise
  the value the field is populated from (the input's copy, else \<^verbatim>\<open>initial()\<close>, else
  \<^verbatim>\<open>null\<close>), which is returned as \<^verbatim>\<open>null\<close> when it is \<^verbatim>\<open>null\<close> and the type is
  not an object type, and is otherwise sanitized by the type: by
  \<^verbatim>\<open>sanitizeInteger\<close> for \<^verbatim>\<open>int\<close>, and to \<^verbatim>\<open>undefined\<close> for a type that has no
  case and no \<^verbatim>\<open>sanitize\<close> of its own.
\<close>

theorem sanitize_populates_schema_fields:
  assumes ds: "distinct (map fst sfs)" and dobj: "distinct (map fst ofs)"
      and names: "set (map fst sfs) \<inter> set objectPrototypeNames = {}"
      and fld: "(k, Obj props) \<in> set sfs"
      and ty: "getProp (Obj props) ''type'' = Inr ty"
      and inp: "getProp (Obj ofs) k = Inr input"
  shows "sanitize (Suc n) h (Obj ofs) (Obj sfs) json =
           bindO (mapO (\<lambda>f. sanitizeField n h f (Obj sfs) json (extendDeep (Obj []) (Obj ofs)))
                    (map fst sfs))
             (\<lambda>vs. Some (Inr (Obj (zip (map fst sfs) vs))))
       \<and> (sanitize (Suc n) h (Obj ofs) (Obj sfs) json = Some (Inr clean) \<longrightarrow>
            forInKeys clean = map fst sfs
          \<and> (\<forall>j. (ownProperty clean j \<noteq> None) = (j \<in> fst ` set sfs))
          \<and> (\<exists>v. ownProperty clean k = Some v
                 \<and> sanitizeField n h k (Obj sfs) json (extendDeep (Obj []) (Obj ofs)) = Some (Inr v)))
       \<and> ((\<forall>f \<in> fst ` set sfs.
              \<exists>v. sanitizeField n h f (Obj sfs) json (extendDeep (Obj []) (Obj ofs)) = Some (Inr v)) \<longrightarrow>
            (\<exists>c. sanitize (Suc n) h (Obj ofs) (Obj sfs) json = Some (Inr c)))
       \<and> ((\<forall>(f, sf) \<in> set sfs. \<forall>s \<in> set nestingTypes. getProp sf ''type'' \<noteq> Inr (Str s)) \<longrightarrow>
            (\<exists>r. sanitize (Suc (Suc m)) h (Obj ofs) (Obj sfs) json = Some r)
          \<and> sanitize (Suc (Suc m)) h (Obj ofs) (Obj sfs) json
              = sanitize (Suc (Suc 0)) h (Obj ofs) (Obj sfs) json)
       \<and> sanitizeField (Suc m) h k (Obj sfs) json (extendDeep (Obj []) (Obj ofs)) =
           (if ty = Str ''function'' then Some (getProp (Obj props) ''value'')
            else bindO (Some (populatedFrom h (Obj props) (inputCopy input))) (\<lambda>v.
                   if v = Null \<and> ty \<noteq> Str ''obj'' \<and> ty \<noteq> Str ''object'' then Some (Inr Null)
                   else sanitizeByType (sanitize m h) (sanitizeField m h) h ty v
                          (Obj (AList.update ''field'' (Str k) props)) json))
       \<and> ((ty = Str ''int'' \<or> ty = Str ''integer'')
            \<and> populatedFrom h (Obj props) (inputCopy input) = Inr w \<and> w \<noteq> Null \<longrightarrow>
            sanitizeField (Suc m) h k (Obj sfs) json (extendDeep (Obj []) (Obj ofs)) =
              Some (sanitizeInteger h w (Obj (AList.update ''field'' (Str k) props))))
       \<and> ((\<forall>s \<in> set knownTypes. ty \<noteq> Str s) \<and> ty \<noteq> Str ''function''
            \<and> ownProperty (Obj props) ''sanitize'' = None
            \<and> populatedFrom h (Obj props) (inputCopy input) = Inr w \<and> w \<noteq> Null \<longrightarrow>
            sanitizeField (Suc m) h k (Obj sfs) json (extendDeep (Obj []) (Obj ofs)) =
              Some (Inr Undefined))"
proof -
  let ?tmp = "extendDeep (Obj []) (Obj ofs)"
  let ?F = "\<lambda>n f. sanitizeField n h f (Obj sfs) json ?tmp"
  have a: "sanitize (Suc n) h (Obj ofs) (Obj sfs) json =
           bindO (mapO (?F n) (map fst sfs)) (\<lambda>vs. Some (Inr (Obj (zip (map fst sfs) vs))))" for n
    by (rule sanitize_as_map [OF ds])
  have b: "sanitize (Suc n) h (Obj ofs) (Obj sfs) json = Some (Inr clean) \<longrightarrow>
            forInKeys clean = map fst sfs
          \<and> (\<forall>j. (ownProperty clean j \<noteq> None) = (j \<in> fst ` set sfs))
          \<and> (\<exists>v. ownProperty clean k = Some v \<and> ?F n k = Some (Inr v))"
  proof
    assume "sanitize (Suc n) h (Obj ofs) (Obj sfs) json = Some (Inr clean)"
    with a [of n] obtain vs where m: "mapO (?F n) (map fst sfs) = Some (Inr vs)"
      and c: "clean = Obj (zip (map fst sfs) vs)"
      by (auto simp: bindO_def split: option.splits sum.splits)
    from mapO_length [OF m] have len: "length vs = length sfs" by simp
    have k1: "forInKeys clean = map fst sfs" unfolding c using len by simp
    have k2: "\<forall>j. (ownProperty clean j \<noteq> None) = (j \<in> fst ` set sfs)"
    proof
      fix j
      have "(map_of (zip (map fst sfs) vs) j = None) = (j \<notin> set (map fst sfs))"
        using len by (intro map_of_zip_is_None) simp
      thus "(ownProperty clean j \<noteq> None) = (j \<in> fst ` set sfs)"
        unfolding c by (simp add: ownProperty_def)
    qed
    from fld have "k \<in> set (map fst sfs)" by force
    from mapO_zip [OF m ds this]
    have k3: "\<exists>v. ownProperty clean k = Some v \<and> ?F n k = Some (Inr v)"
      unfolding c by (simp add: ownProperty_def)
    from k1 k2 k3 show "forInKeys clean = map fst sfs
          \<and> (\<forall>j. (ownProperty clean j \<noteq> None) = (j \<in> fst ` set sfs))
          \<and> (\<exists>v. ownProperty clean k = Some v \<and> ?F n k = Some (Inr v))"
      by blast
  qed
  have c: "(\<forall>f \<in> fst ` set sfs. \<exists>v. ?F n f = Some (Inr v)) \<longrightarrow>
            (\<exists>c. sanitize (Suc n) h (Obj ofs) (Obj sfs) json = Some (Inr c))"
  proof
    assume "\<forall>f \<in> fst ` set sfs. \<exists>v. ?F n f = Some (Inr v)"
    hence "\<forall>f \<in> set (map fst sfs). \<exists>v. ?F n f = Some (Inr v)" by simp
    from mapO_all [OF this] obtain vs where "mapO (?F n) (map fst sfs) = Some (Inr vs)" by blast
    thus "\<exists>c. sanitize (Suc n) h (Obj ofs) (Obj sfs) json = Some (Inr c)"
      unfolding a by (simp add: bindO_def)
  qed
  have d: "(\<forall>(f, sf) \<in> set sfs. \<forall>s \<in> set nestingTypes. getProp sf ''type'' \<noteq> Inr (Str s)) \<longrightarrow>
            (\<exists>r. sanitize (Suc (Suc m)) h (Obj ofs) (Obj sfs) json = Some r)
          \<and> sanitize (Suc (Suc m)) h (Obj ofs) (Obj sfs) json
              = sanitize (Suc (Suc 0)) h (Obj ofs) (Obj sfs) json"
  proof
    assume flat: "\<forall>(f, sf) \<in> set sfs. \<forall>s \<in> set nestingTypes. getProp sf ''type'' \<noteq> Inr (Str s)"
    have nn: "\<forall>s \<in> set nestingTypes. getProp sf ''type'' \<noteq> Inr (Str s)"
      if "f \<in> set (map fst sfs)" and "getProp (Obj sfs) f = Inr sf" for f sf
    proof -
      from that have "(f, sf) \<in> set sfs"
        by (auto split: option.splits dest: map_of_SomeD simp: map_of_eq_None_iff)
      with flat show ?thesis by blast
    qed
    have "\<exists>r. ?F (Suc m) f = Some r" if "f \<in> set (map fst sfs)" for f
      by (rule sanitizeField_some) (rule nn [OF that])
    hence "\<exists>r. mapO (?F (Suc m)) (map fst sfs) = Some r" by (intro mapO_returns) blast
    hence d1: "\<exists>r. sanitize (Suc (Suc m)) h (Obj ofs) (Obj sfs) json = Some r"
      unfolding a by (auto simp: bindO_returns)
    have "?F (Suc m) f = ?F (Suc 0) f" if "f \<in> set (map fst sfs)" for f
      unfolding sanitizeField.simps by (rule sanitizeFieldBody_flat) (rule nn [OF that])
    hence "mapO (?F (Suc m)) (map fst sfs) = mapO (?F (Suc 0)) (map fst sfs)"
      by (rule mapO_cong)
    hence d2: "sanitize (Suc (Suc m)) h (Obj ofs) (Obj sfs) json
              = sanitize (Suc (Suc 0)) h (Obj ofs) (Obj sfs) json"
      unfolding a by simp
    from d1 d2 show "(\<exists>r. sanitize (Suc (Suc m)) h (Obj ofs) (Obj sfs) json = Some r)
          \<and> sanitize (Suc (Suc m)) h (Obj ofs) (Obj sfs) json
              = sanitize (Suc (Suc 0)) h (Obj ofs) (Obj sfs) json" by blast
  qed
  note e = sanitizeField_rule [OF ds dobj fld ty inp, of m h json]
  have f: "(ty = Str ''int'' \<or> ty = Str ''integer'')
            \<and> populatedFrom h (Obj props) (inputCopy input) = Inr w \<and> w \<noteq> Null \<longrightarrow>
            ?F (Suc m) k = Some (sanitizeInteger h w (Obj (AList.update ''field'' (Str k) props)))"
    unfolding e by (auto simp: bindO_Inr sanitizeByType_def)
  have g: "(\<forall>s \<in> set knownTypes. ty \<noteq> Str s) \<and> ty \<noteq> Str ''function''
            \<and> ownProperty (Obj props) ''sanitize'' = None
            \<and> populatedFrom h (Obj props) (inputCopy input) = Inr w \<and> w \<noteq> Null \<longrightarrow>
            ?F (Suc m) k = Some (Inr Undefined)"
  proof
    assume h: "(\<forall>s \<in> set knownTypes. ty \<noteq> Str s) \<and> ty \<noteq> Str ''function''
            \<and> ownProperty (Obj props) ''sanitize'' = None
            \<and> populatedFrom h (Obj props) (inputCopy input) = Inr w \<and> w \<noteq> Null"
    hence nk: "ty \<noteq> Str ''int''" "ty \<noteq> Str ''integer''" "ty \<noteq> Str ''float''" "ty \<noteq> Str ''double''"
      "ty \<noteq> Str ''string''" "ty \<noteq> Str ''char''" "ty \<noteq> Str ''varchar''" "ty \<noteq> Str ''date''"
      "ty \<noteq> Str ''datetime''" "ty \<noteq> Str ''timestamp''" "ty \<noteq> Str ''bool''" "ty \<noteq> Str ''boolean''"
      "ty \<noteq> Str ''obj''" "ty \<noteq> Str ''object''" "ty \<noteq> Str ''array''" "ty \<noteq> Str ''collection''"
      "ty \<noteq> Str ''callback''"
      by (simp_all add: knownTypes_def)
    from h have ns: "map_of props ''sanitize'' = None" by (simp add: ownProperty_def)
    hence ns': "map_of (AList.update ''field'' (Str k) props) ''sanitize'' = None"
      by (simp add: update_conv')
    have "sanitizeByType (sanitize m h) (sanitizeField m h) h ty w
            (Obj (AList.update ''field'' (Str k) props)) json = Some (Inr Undefined)"
      unfolding sanitizeByType_def using nk ns' by (simp add: bindO_Inr)
    thus "?F (Suc m) k = Some (Inr Undefined)"
      unfolding e using h by (simp add: bindO_Inr)
  qed
  from a [of n] b c d e f g show ?thesis by blast
qed

theorem sanitize_populates_schema_fields_witness:
  "forInKeys (Obj [(''n'', Num 12), (''s'', Null), (''d'', Num 7), (''f'', Fun 9), (''c'', Undefined)])
     = [''n'', ''s'', ''d'', ''f'', ''c'']
 \<and> ownProperty (Obj [(''n'', Num 12), (''s'', Null), (''d'', Num 7), (''f'', Fun 9), (''c'', Undefined)])
       ''junk'' = None
 \<and> (\<exists>c. sanitize (Suc (Suc 0)) defaultsHost (Obj input1) (Obj schema1) False = Some (Inr c))
 \<and> (\<exists>r. sanitize (Suc (Suc 0)) defaultsHost (Obj input1) (Obj schema1) False = Some r)
 \<and> sanitizeField (Suc 0) defaultsHost ''d'' (Obj schema1) False (extendDeep (Obj []) (Obj input1))
      = Some (Inr (Num 7))
 \<and> sanitizeField (Suc 0) defaultsHost ''c'' (Obj schema1) False (extendDeep (Obj []) (Obj input1))
      = Some (Inr Undefined)"
proof -
  let ?clean = "Obj [(''n'', Num 12), (''s'', Null), (''d'', Num 7), (''f'', Fun 9), (''c'', Undefined)]"
  have ds: "distinct (map fst schema1)" by (simp add: schema1_def)
  have dobj: "distinct (map fst input1)" by (simp add: input1_def)
  have names: "set (map fst schema1) \<inter> set objectPrototypeNames = {}"
    by (simp add: schema1_def objectPrototypeNames_def)
  have fd: "(''d'', Obj [(''type'', Str ''int''), (''initial'', Fun 0)]) \<in> set schema1"
    by (simp add: schema1_def)
  have td: "getProp (Obj [(''type'', Str ''int''), (''initial'', Fun 0)]) ''type'' = Inr (Str ''int'')"
    by simp
  have id: "getProp (Obj input1) ''d'' = Inr Undefined" by (simp add: input1_def)
  have fc: "(''c'', Obj [(''type'', Str ''money'')]) \<in> set schema1" by (simp add: schema1_def)
  have tc: "getProp (Obj [(''type'', Str ''money'')]) ''type'' = Inr (Str ''money'')" by simp
  have ic: "getProp (Obj input1) ''c'' = Inr (Num 5)" by (simp add: input1_def)
  have flat: "\<forall>(f, sf) \<in> set schema1. \<forall>s \<in> set nestingTypes. getProp sf ''type'' \<noteq> Inr (Str s)"
    by (simp add: schema1_def nestingTypes_def)
  have pd: "(Str ''int'' = Str ''int'' \<or> Str ''int'' = Str ''integer'')
            \<and> populatedFrom defaultsHost (Obj [(''type'', Str ''int''), (''initial'', Fun 0)])
                  (inputCopy Undefined) = Inr (Str ''7 apples'') \<and> Str ''7 apples'' \<noteq> Null"
    by (simp add: populatedFrom_def inputCopy_def ownProperty_def callFunction_def
          defaultsHost_def plainHost_def)
  have pc: "(\<forall>s \<in> set knownTypes. Str ''money'' \<noteq> Str s) \<and> Str ''money'' \<noteq> Str ''function''
            \<and> ownProperty (Obj [(''type'', Str ''money'')]) ''sanitize'' = None
            \<and> populatedFrom defaultsHost (Obj [(''type'', Str ''money'')]) (inputCopy (Num 5)) = Inr (Num 5)
            \<and> Num 5 \<noteq> Null"
    by (simp add: knownTypes_def populatedFrom_def inputCopy_def ownProperty_def)
  have si: "sanitizeInteger defaultsHost (Str ''7 apples'')
              (Obj (AList.update ''field'' (Str ''d'') [(''type'', Str ''int''), (''initial'', Fun 0)]))
            = Inr (Num 7)"
    by (simp add: parse_simps sanitizeIntegerRange_def bindR_def)
  note t1 = sanitize_populates_schema_fields [OF ds dobj names fd td id,
    where h = defaultsHost and n = "Suc 0" and m = 0 and json = False and clean = ?clean
      and w = "Str ''7 apples''"]
  note t2 = sanitize_populates_schema_fields [OF ds dobj names fc tc ic,
    where h = defaultsHost and n = "Suc 0" and m = 0 and json = False and clean = ?clean
      and w = "Num 5"]
  from t1 sanitize1_run have k1: "forInKeys ?clean = map fst schema1"
    and k2: "\<forall>j. (ownProperty ?clean j \<noteq> None) = (j \<in> fst ` set schema1)"
    by blast+
  from k2 have "(ownProperty ?clean ''junk'' \<noteq> None) = (''junk'' \<in> fst ` set schema1)" by blast
  hence "ownProperty ?clean ''junk'' = None" by (simp add: schema1_def)
  with k1 have k: "forInKeys ?clean = [''n'', ''s'', ''d'', ''f'', ''c'']"
    "ownProperty ?clean ''junk'' = None"
    by (simp_all add: schema1_def)
  from t1 fields1_run
  have p: "\<exists>c. sanitize (Suc (Suc 0)) defaultsHost (Obj input1) (Obj schema1) False = Some (Inr c)"
    by blast
  from t1 flat
  have q: "\<exists>r. sanitize (Suc (Suc 0)) defaultsHost (Obj input1) (Obj schema1) False = Some r"
    by blast
  from t1 pd have "sanitizeField (Suc 0) defaultsHost ''d'' (Obj schema1) False (extendDeep (Obj []) (Obj input1))
      = Some (sanitizeInteger defaultsHost (Str ''7 apples'')
              (Obj (AList.update ''field'' (Str ''d'') [(''type'', Str ''int''), (''initial'', Fun 0)])))"
    by blast
  hence d: "sanitizeField (Suc 0) defaultsHost ''d'' (Obj schema1) False (extendDeep (Obj []) (Obj input1))
      = Some (Inr (Num 7))"
    by (simp only: si)
  from t2 pc have c: "sanitizeField (Suc 0) defaultsHost ''c'' (Obj schema1) False (extendDeep (Obj []) (Obj input1))
      = Some (Inr Undefined)"
    by blast
  from k p q d c show ?thesis by blast
qed


section \<open>Properties of the draft\<close>

lemma cloning_bound: "cloning H st h \<Longrightarrow> length st \<le> length H"
proof -
  assume c: "cloning H st h"
  hence d: "distinct (map fst st)" and s: "set (map fst st) \<subseteq> {..<length H}"
    by (auto simp: cloning_def list_all_iff)
  have "length st = card (set (map fst st))" using distinct_card [OF d] by simp
  also have "\<dots> \<le> card {..<length H}" using s by (intro card_mono) auto
  finally show ?thesis by simp
qed

lemma cloning_nth: "cloning H st h \<Longrightarrow> a < length H \<Longrightarrow> h ! a = H ! a"
proof -
  assume c: "cloning H st h" and a: "a < length H"
  hence "take (length H) h ! a = h ! a" by simp
  with c show ?thesis by (simp add: cloning_def)
qed

lemma cloning_entry:
  "cloning H st h \<Longrightarrow> map_of st a = Some b \<Longrightarrow>
     a < length H \<and> length H \<le> b \<and> b < length h \<and> sameKind (H ! a) (h ! b)"
  by (auto simp: cloning_def list_all_iff dest!: map_of_SomeD)

lemma cloning_ext: "cloning H st h \<Longrightarrow> cloning H st (h @ e)"
  by (auto simp: cloning_def list_all_iff nth_append)

lemma cloning_upd:
  assumes "cloning H st h" and "length H \<le> b" and "sameKind (h ! b) c"
  shows "cloning H st (h[b := c])"
proof -
  have k: "sameKind (H ! a) (h[b := c] ! b')" if "sameKind (H ! a) (h ! b')" "b' < length h" for a b'
    using that assms(3)
    by (cases "b' = b") (auto simp: sameKind_def split: cell.splits)
  show ?thesis using assms(1,2) k by (auto simp: cloning_def list_all_iff)
qed

lemma cloning_push:
  assumes "cloning H st h" and "a < length H" and "map_of st a = None" and "sameKind (H ! a) c"
  shows "cloning H ((a, length h) # st) (h @ [c])"
  using assms
  by (auto simp: cloning_def list_all_iff nth_append map_of_eq_None_iff)

lemma map_of_ext:
  assumes "distinct (map fst (new @ st))" and "map_of st a = Some b"
  shows "map_of (new @ st) a = Some b"
proof -
  from assms(2) have "a \<in> fst ` set st" by (force dest: map_of_SomeD)
  with assms(1) have "a \<notin> fst ` set new" by auto
  hence "map_of new a = None" by (simp add: map_of_eq_None_iff)
  with assms(2) show ?thesis by (simp add: map_add_def)
qed

lemma image_ext:
  assumes "imageOf H st h x y" and "distinct (map fst (new @ st))"
  shows "imageOf H (new @ st) (h @ e) x y"
  using assms map_of_ext [OF assms(2)]
  by (auto simp: imageOf_def temporalAt_def nth_append split: rval.splits cell.splits option.splits)

lemma image_upd:
  assumes "imageOf H st h x y" and "plainOrArray (h ! b)"
  shows "imageOf H st (h[b := c]) x y"
proof -
  have "h[b := c] ! b' = d" if "h ! b' = d" "\<not> plainOrArray d" "b' < length h" for b' d
    using that assms(2) by (cases "b' = b") auto
  thus ?thesis using assms(1)
    by (auto simp: imageOf_def temporalAt_def plainOrArray_def split: rval.splits cell.splits option.splits)
qed

lemma copied_ext:
  assumes "copied H st h p" and "snd p < length h" and "distinct (map fst (new @ st))"
  shows "copied H (new @ st) (h @ e) p"
proof -
  have m: "list_all2 (imageOf H (new @ st) (h @ e)) xs ys" if "list_all2 (imageOf H st h) xs ys" for xs ys
    using that by (rule list_all2_mono) (rule image_ext [OF _ assms(3)])
  show ?thesis using assms(1,2) m
    by (auto simp: copied_def nth_append split: cell.splits)
qed

lemma copied_upd:
  assumes "copied H st h p" and "snd p \<noteq> b" and "plainOrArray (h ! b)"
  shows "copied H st (h[b := c]) p"
proof -
  have m: "list_all2 (imageOf H st (h[b := c])) xs ys" if "list_all2 (imageOf H st h) xs ys" for xs ys
    using that by (rule list_all2_mono) (rule image_upd [OF _ assms(3)])
  show ?thesis using assms(1,2) m
    by (auto simp: copied_def split: cell.splits)
qed

lemma cloning_distinct: "cloning H st h \<Longrightarrow> distinct (map fst st)"
  by (simp add: cloning_def)

lemma cloning_target: "cloning H st h \<Longrightarrow> p \<in> set st \<Longrightarrow> snd p < length h"
  by (auto simp: cloning_def list_all_iff)

lemma props_spec:
  assumes B: "\<And>st h x. cloning H st h \<Longrightarrow> okVal (length H) x \<Longrightarrow> n \<le> length st \<Longrightarrow>
                cloneOk H clone st h x"
  shows "cloning H st h \<Longrightarrow> n \<le> length st \<Longrightarrow> length H \<le> b \<Longrightarrow> b < length h \<Longrightarrow>
         h ! b = PlainCell gs0 \<Longrightarrow> list_all (okVal (length H)) (map snd rest) \<Longrightarrow>
         distinct (map fst rest) \<Longrightarrow> fst ` set rest \<inter> fst ` set gs0 = {} \<Longrightarrow>
         \<exists>e new gs. cloneProps clone st h b rest
                        = Some ((h @ e)[b := PlainCell (gs0 @ gs)], new @ st)
           \<and> map fst gs = map fst rest
           \<and> list_all2 (imageOf H (new @ st) ((h @ e)[b := PlainCell (gs0 @ gs)]))
                 (map snd rest) (map snd gs)
           \<and> cloning H (new @ st) ((h @ e)[b := PlainCell (gs0 @ gs)])
           \<and> (\<forall>p \<in> set new. length h \<le> snd p
                  \<and> copied H (new @ st) ((h @ e)[b := PlainCell (gs0 @ gs)]) p)"
proof (induction rest arbitrary: st h gs0)
  case Nil
  have "(h @ [])[b := PlainCell (gs0 @ [])] = h" using Nil.prems(5) by (simp add: list_update_same_conv Nil.prems(4))
  with Nil.prems(1) show ?case
    by (intro exI [where x = "[]"]) simp
next
  case (Cons p rest)
  obtain k x where p: "p = (k, x)" by (cases p)
  note cl = Cons.prems(1) and nn = Cons.prems(2) and lb = Cons.prems(3) and bl = Cons.prems(4)
    and hb = Cons.prems(5)
  from Cons.prems(6) p have okx: "okVal (length H) x"
    and okr: "list_all (okVal (length H)) (map snd rest)" by simp_all
  from Cons.prems(7) p have kr: "k \<notin> fst ` set rest" and dr: "distinct (map fst rest)" by auto
  from Cons.prems(8) p have kg: "k \<notin> fst ` set gs0" and rg: "fst ` set rest \<inter> fst ` set gs0 = {}"
    by auto
  from B [OF cl okx nn] obtain y e1 new1 where
    c1: "clone st h x = Some (y, h @ e1, new1 @ st)"
    and cl1: "cloning H (new1 @ st) (h @ e1)"
    and im1: "imageOf H (new1 @ st) (h @ e1) x y"
    and cp1: "\<forall>p \<in> set new1. length h \<le> snd p \<and> copied H (new1 @ st) (h @ e1) p"
    unfolding cloneOk_def by blast
  let ?g1 = "gs0 @ [(k, y)]"
  let ?h1 = "(h @ e1)[b := PlainCell ?g1]"
  have hb1: "(h @ e1) ! b = PlainCell gs0" using bl hb by (simp add: nth_append)
  have asg: "assignProp (h @ e1) b k y = ?h1"
    by (simp add: assignProp_def hb1 update_fresh [OF kg])
  have cl1': "cloning H (new1 @ st) ?h1"
    using cl1 lb by (rule cloning_upd) (simp add: hb1 sameKind_def)
  have n1: "n \<le> length (new1 @ st)" using nn by simp
  have bl1: "b < length ?h1" using bl by simp
  have hb1': "?h1 ! b = PlainCell ?g1" using bl by simp
  have rg1: "fst ` set rest \<inter> fst ` set ?g1 = {}" using rg kr by auto
  from Cons.IH [OF cl1' n1 lb bl1 hb1' okr dr rg1] obtain e2 new2 gs2 where
    r2: "cloneProps clone (new1 @ st) ?h1 b rest
           = Some ((?h1 @ e2)[b := PlainCell (?g1 @ gs2)], new2 @ new1 @ st)"
    and k2: "map fst gs2 = map fst rest"
    and im2: "list_all2 (imageOf H (new2 @ new1 @ st) ((?h1 @ e2)[b := PlainCell (?g1 @ gs2)]))
                 (map snd rest) (map snd gs2)"
    and cl2: "cloning H (new2 @ new1 @ st) ((?h1 @ e2)[b := PlainCell (?g1 @ gs2)])"
    and cp2: "\<forall>p \<in> set new2. length ?h1 \<le> snd p
                  \<and> copied H (new2 @ new1 @ st) ((?h1 @ e2)[b := PlainCell (?g1 @ gs2)]) p"
    by blast
  let ?hf = "(h @ (e1 @ e2))[b := PlainCell (gs0 @ ((k, y) # gs2))]"
  have ble: "b < length (h @ e1)" using bl by simp
  have hf: "(?h1 @ e2)[b := PlainCell (?g1 @ gs2)] = ?hf"
    using ble by (simp add: list_update_append1 [symmetric] del: append_assoc) simp
  have d2: "distinct (map fst (new2 @ new1 @ st))" using cl2 by (rule cloning_distinct)
  have "((h @ e1) @ e2) ! b = PlainCell gs0" using bl hb by (simp add: nth_append)
  hence pa: "plainOrArray (((h @ e1) @ e2) ! b)" by (simp add: plainOrArray_def)
  have imx: "imageOf H (new2 @ new1 @ st) ?hf x y"
  proof -
    from image_ext [OF im1, of new2 e2] d2
    have "imageOf H (new2 @ new1 @ st) ((h @ e1) @ e2) x y" by simp
    from image_upd [OF this pa] show ?thesis by simp
  qed
  have cpa: "length h \<le> snd q \<and> copied H (new2 @ new1 @ st) ?hf q" if q: "q \<in> set new1" for q
  proof -
    from cp1 q have lq: "length h \<le> snd q" and cq: "copied H (new1 @ st) (h @ e1) q" by auto
    from q have "q \<in> set (new1 @ st)" by simp
    from cloning_target [OF cl1 this] have "snd q < length (h @ e1)" .
    from copied_ext [OF cq this, of new2 e2] d2
    have "copied H (new2 @ new1 @ st) ((h @ e1) @ e2) q" by simp
    moreover from lq bl have "snd q \<noteq> b" by simp
    ultimately have "copied H (new2 @ new1 @ st) (((h @ e1) @ e2)[b := PlainCell (gs0 @ ((k, y) # gs2))]) q"
      using pa by (rule copied_upd)
    with lq show ?thesis by simp
  qed
  have cpb: "length h \<le> snd q \<and> copied H (new2 @ new1 @ st) ?hf q" if q: "q \<in> set new2" for q
    using cp2 q unfolding hf by auto
  have "cloneProps clone st h b (p # rest) = Some (?hf, (new2 @ new1) @ st)"
    unfolding p using c1 asg r2 hf by simp
  moreover have "map fst ((k, y) # gs2) = map fst (p # rest)" using k2 p by simp
  moreover have "list_all2 (imageOf H ((new2 @ new1) @ st) ?hf) (map snd (p # rest)) (map snd ((k, y) # gs2))"
    using imx im2 unfolding hf p by simp
  moreover have "cloning H ((new2 @ new1) @ st) ?hf" using cl2 unfolding hf by simp
  moreover have "\<forall>q \<in> set (new2 @ new1). length h \<le> snd q \<and> copied H ((new2 @ new1) @ st) ?hf q"
    using cpa cpb by auto
  ultimately show ?case by blast
qed

lemma elems_spec:
  assumes B: "\<And>st h x. cloning H st h \<Longrightarrow> okVal (length H) x \<Longrightarrow> n \<le> length st \<Longrightarrow>
                cloneOk H clone st h x"
  shows "cloning H st h \<Longrightarrow> n \<le> length st \<Longrightarrow> length H \<le> b \<Longrightarrow> b < length h \<Longrightarrow>
         h ! b = ArrayCell ys0 \<Longrightarrow> list_all (okVal (length H)) rest \<Longrightarrow>
         i + length rest = length ys0 \<Longrightarrow>
         \<exists>e new gs. cloneElems clone st h b i rest
                        = Some ((h @ e)[b := ArrayCell (take i ys0 @ gs)], new @ st)
           \<and> list_all2 (imageOf H (new @ st) ((h @ e)[b := ArrayCell (take i ys0 @ gs)])) rest gs
           \<and> cloning H (new @ st) ((h @ e)[b := ArrayCell (take i ys0 @ gs)])
           \<and> (\<forall>p \<in> set new. length h \<le> snd p
                  \<and> copied H (new @ st) ((h @ e)[b := ArrayCell (take i ys0 @ gs)]) p)"
proof (induction rest arbitrary: st h ys0 i)
  case Nil
  have "(h @ [])[b := ArrayCell (take i ys0 @ [])] = h"
    using Nil.prems(5,7) by (simp add: list_update_same_conv Nil.prems(4))
  with Nil.prems(1) show ?case
    by (intro exI [where x = "[]"]) simp
next
  case (Cons x rest)
  note cl = Cons.prems(1) and nn = Cons.prems(2) and lb = Cons.prems(3) and bl = Cons.prems(4)
    and hb = Cons.prems(5)
  from Cons.prems(6) have okx: "okVal (length H) x"
    and okr: "list_all (okVal (length H)) rest" by simp_all
  from Cons.prems(7) have il: "i < length ys0" by simp
  from B [OF cl okx nn] obtain y e1 new1 where
    c1: "clone st h x = Some (y, h @ e1, new1 @ st)"
    and cl1: "cloning H (new1 @ st) (h @ e1)"
    and im1: "imageOf H (new1 @ st) (h @ e1) x y"
    and cp1: "\<forall>p \<in> set new1. length h \<le> snd p \<and> copied H (new1 @ st) (h @ e1) p"
    unfolding cloneOk_def by blast
  let ?y1 = "ys0[i := y]"
  let ?h1 = "(h @ e1)[b := ArrayCell ?y1]"
  have hb1: "(h @ e1) ! b = ArrayCell ys0" using bl hb by (simp add: nth_append)
  have asg: "assignElem (h @ e1) b i y = ?h1"
    by (simp add: assignElem_def hb1)
  have cl1': "cloning H (new1 @ st) ?h1"
    using cl1 lb by (rule cloning_upd) (simp add: hb1 sameKind_def)
  have n1: "n \<le> length (new1 @ st)" using nn by simp
  have bl1: "b < length ?h1" using bl by simp
  have hb1': "?h1 ! b = ArrayCell ?y1" using bl by simp
  have len1: "Suc i + length rest = length ?y1" using Cons.prems(7) by simp
  have tk: "take (Suc i) ?y1 = take i ys0 @ [y]"
    using il by (simp add: take_Suc_conv_app_nth)
  from Cons.IH [OF cl1' n1 lb bl1 hb1' okr len1] obtain e2 new2 gs2 where
    r2: "cloneElems clone (new1 @ st) ?h1 b (Suc i) rest
           = Some ((?h1 @ e2)[b := ArrayCell (take (Suc i) ?y1 @ gs2)], new2 @ new1 @ st)"
    and im2: "list_all2 (imageOf H (new2 @ new1 @ st) ((?h1 @ e2)[b := ArrayCell (take (Suc i) ?y1 @ gs2)]))
                 rest gs2"
    and cl2: "cloning H (new2 @ new1 @ st) ((?h1 @ e2)[b := ArrayCell (take (Suc i) ?y1 @ gs2)])"
    and cp2: "\<forall>p \<in> set new2. length ?h1 \<le> snd p
                  \<and> copied H (new2 @ new1 @ st) ((?h1 @ e2)[b := ArrayCell (take (Suc i) ?y1 @ gs2)]) p"
    by blast
  let ?hf = "(h @ (e1 @ e2))[b := ArrayCell (take i ys0 @ (y # gs2))]"
  have ble: "b < length (h @ e1)" using bl by simp
  have hf: "(?h1 @ e2)[b := ArrayCell (take (Suc i) ?y1 @ gs2)] = ?hf"
    unfolding tk using ble by (simp add: list_update_append1 [symmetric] del: append_assoc) simp
  have d2: "distinct (map fst (new2 @ new1 @ st))" using cl2 by (rule cloning_distinct)
  have "((h @ e1) @ e2) ! b = ArrayCell ys0" using bl hb by (simp add: nth_append)
  hence pa: "plainOrArray (((h @ e1) @ e2) ! b)" by (simp add: plainOrArray_def)
  have imx: "imageOf H (new2 @ new1 @ st) ?hf x y"
  proof -
    from image_ext [OF im1, of new2 e2] d2
    have "imageOf H (new2 @ new1 @ st) ((h @ e1) @ e2) x y" by simp
    from image_upd [OF this pa] show ?thesis by simp
  qed
  have cpa: "length h \<le> snd q \<and> copied H (new2 @ new1 @ st) ?hf q" if q: "q \<in> set new1" for q
  proof -
    from cp1 q have lq: "length h \<le> snd q" and cq: "copied H (new1 @ st) (h @ e1) q" by auto
    from q have "q \<in> set (new1 @ st)" by simp
    from cloning_target [OF cl1 this] have "snd q < length (h @ e1)" .
    from copied_ext [OF cq this, of new2 e2] d2
    have "copied H (new2 @ new1 @ st) ((h @ e1) @ e2) q" by simp
    moreover from lq bl have "snd q \<noteq> b" by simp
    ultimately have "copied H (new2 @ new1 @ st) (((h @ e1) @ e2)[b := ArrayCell (take i ys0 @ (y # gs2))]) q"
      using pa by (rule copied_upd)
    with lq show ?thesis by simp
  qed
  have cpb: "length h \<le> snd q \<and> copied H (new2 @ new1 @ st) ?hf q" if q: "q \<in> set new2" for q
    using cp2 q unfolding hf by auto
  have "cloneElems clone st h b i (x # rest) = Some (?hf, (new2 @ new1) @ st)"
    using c1 asg r2 hf by simp
  moreover have "list_all2 (imageOf H ((new2 @ new1) @ st) ?hf) (x # rest) (y # gs2)"
    using imx im2 unfolding hf by simp
  moreover have "cloning H ((new2 @ new1) @ st) ?hf" using cl2 unfolding hf by simp
  moreover have "\<forall>q \<in> set (new2 @ new1). length h \<le> snd q \<and> copied H ((new2 @ new1) @ st) ?hf q"
    using cpa cpb by auto
  ultimately show ?case by blast
qed

lemma closed_cell: "closed H \<Longrightarrow> a < length H \<Longrightarrow> okCell (length H) (H ! a)"
  by (simp add: closed_def list_all_length)

lemma customizer_temporal:
  "cloneCustomizerRef h (Ref a) =
     (if a < length h then
        (case h ! a of
           MomentCell t \<Rightarrow> Some (Ref (length h), h @ [MomentCell t])
         | DateCell t \<Rightarrow> Some (Ref (length h), h @ [DateCell t])
         | _ \<Rightarrow> None)
      else None)"
  by (simp add: cloneCustomizerRef_def)

lemma customizer_primitive: "\<not> isRef x \<Longrightarrow> cloneCustomizerRef h x = None"
  by (cases x) (simp_all add: cloneCustomizerRef_def)

lemma clone_spec:
  assumes cH: "closed H"
  shows "cloning H st h \<Longrightarrow> okVal (length H) x \<Longrightarrow> length H < fuel + length st \<Longrightarrow>
         \<not> (outermost \<and> isFunctionRef H x) \<Longrightarrow>
         cloneOk H (\<lambda>st h x. baseClone fuel cloneCustomizerRef cloneInstance st outermost h x) st h x"
proof (induction fuel arbitrary: st h x outermost)
  case 0
  from cloning_bound [OF "0.prems"(1)] "0.prems"(3) show ?case by simp
next
  case (Suc fuel)
  note cl = Suc.prems(1) and ok = Suc.prems(2) and fu = Suc.prems(3) and nf = Suc.prems(4)
  let ?n = "Suc (length H) - fuel"
  have B: "cloneOk H (\<lambda>st h x. baseClone fuel cloneCustomizerRef cloneInstance st False h x) st' h' x'"
    if "cloning H st' h'" "okVal (length H) x'" "?n \<le> length st'" for st' h' x'
    using that by (intro Suc.IH) auto
  have triv: "cloneOk H clone st h x" if "clone st h x = Some (x, h, st)" "imageOf H st h x x" for clone
    unfolding cloneOk_def using that cl
    by (intro exI [where x = x] exI [where x = "[]"]) simp
  show ?case
  proof (cases "isRef x")
    case False
    hence r: "baseClone (Suc fuel) cloneCustomizerRef cloneInstance st outermost h x = Some (x, h, st)"
      by (cases x) (simp_all add: baseCloneBody_def customizer_primitive)
    from False have "imageOf H st h x x" by (cases x) (simp_all add: imageOf_def)
    with r show ?thesis by (intro triv)
  next
    case True
    then obtain a where Ref: "x = Ref a" by (cases x) simp_all
    with ok have aL: "a < length H" by (simp add: okVal_def)
    from cl have Lh: "length H \<le> length h" by (simp add: cloning_def)
    with aL have ah: "a < length h" by simp
    have ha: "h ! a = H ! a" using cl aL by (rule cloning_nth)
    have dst: "distinct (map fst st)" using cl by (rule cloning_distinct)
    show ?thesis
    proof (cases "H ! a")
      case (DateCell t)
      have r: "baseClone (Suc fuel) cloneCustomizerRef cloneInstance st outermost h x
                 = Some (Ref (length h), h @ [DateCell t], st)"
        using Ref ah ha DateCell by (simp add: baseCloneBody_def customizer_temporal)
      have "imageOf H st (h @ [DateCell t]) x (Ref (length h))"
        using Ref DateCell Lh by (simp add: imageOf_def temporalAt_def)
      with r cloning_ext [OF cl, of "[DateCell t]"] show ?thesis
        unfolding cloneOk_def
        by (intro exI [where x = "Ref (length h)"] exI [where x = "[DateCell t]"] exI [where x = "[]"]) simp
    next
      case (MomentCell t)
      have r: "baseClone (Suc fuel) cloneCustomizerRef cloneInstance st outermost h x
                 = Some (Ref (length h), h @ [MomentCell t], st)"
        using Ref ah ha MomentCell by (simp add: baseCloneBody_def customizer_temporal)
      have "imageOf H st (h @ [MomentCell t]) x (Ref (length h))"
        using Ref MomentCell Lh by (simp add: imageOf_def temporalAt_def)
      with r cloning_ext [OF cl, of "[MomentCell t]"] show ?thesis
        unfolding cloneOk_def
        by (intro exI [where x = "Ref (length h)"] exI [where x = "[MomentCell t]"] exI [where x = "[]"]) simp
    next
      case (FunctionCell f)
      with nf Ref aL have no: "\<not> outermost" by (simp add: isFunctionRef_def)
      have r: "baseClone (Suc fuel) cloneCustomizerRef cloneInstance st outermost h x = Some (x, h, st)"
        using Ref ah ha FunctionCell no by (simp add: baseCloneBody_def customizer_temporal)
      have "imageOf H st h x x" using Ref FunctionCell by (simp add: imageOf_def)
      with r show ?thesis by (intro triv)
    next
      case (PlainCell fs)
      show ?thesis
      proof (cases "map_of st a")
        case (Some c)
        have r: "baseClone (Suc fuel) cloneCustomizerRef cloneInstance st outermost h x
                 = Some (Ref c, h @ [PlainCell []], st)"
          using Ref ah ha PlainCell Some by (simp add: baseCloneBody_def customizer_temporal)
        have "imageOf H st (h @ [PlainCell []]) x (Ref c)"
          using Ref PlainCell Some by (simp add: imageOf_def)
        with r cloning_ext [OF cl, of "[PlainCell []]"] show ?thesis
          unfolding cloneOk_def
          by (intro exI [where x = "Ref c"] exI [where x = "[PlainCell []]"] exI [where x = "[]"]) simp
      next
        case None
        let ?b = "length h"
        let ?st0 = "(a, ?b) # st"
        let ?h0 = "h @ [PlainCell []]"
        have cl0: "cloning H ?st0 ?h0"
          using cl aL None by (rule cloning_push) (simp add: PlainCell sameKind_def)
        have n0: "?n \<le> length ?st0" using fu by simp
        from closed_cell [OF cH aL] PlainCell
        have okf: "list_all (okVal (length H)) (map snd fs)" and df: "distinct (map fst fs)"
          by (simp_all add: okCell_def)
        have "\<exists>e new gs. cloneProps (\<lambda>st h x. baseClone fuel cloneCustomizerRef cloneInstance st False h x)
                            ?st0 ?h0 ?b fs
                        = Some ((?h0 @ e)[?b := PlainCell ([] @ gs)], new @ ?st0)
           \<and> map fst gs = map fst fs
           \<and> list_all2 (imageOf H (new @ ?st0) ((?h0 @ e)[?b := PlainCell ([] @ gs)]))
                 (map snd fs) (map snd gs)
           \<and> cloning H (new @ ?st0) ((?h0 @ e)[?b := PlainCell ([] @ gs)])
           \<and> (\<forall>p \<in> set new. length ?h0 \<le> snd p
                  \<and> copied H (new @ ?st0) ((?h0 @ e)[?b := PlainCell ([] @ gs)]) p)"
          by (rule props_spec [where n = ?n, OF B cl0 n0 Lh _ _ okf df]) simp_all
        then obtain e new gs where
          r: "cloneProps (\<lambda>st h x. baseClone fuel cloneCustomizerRef cloneInstance st False h x)
                ?st0 ?h0 ?b fs = Some ((?h0 @ e)[?b := PlainCell gs], new @ ?st0)"
          and k: "map fst gs = map fst fs"
          and im: "list_all2 (imageOf H (new @ ?st0) ((?h0 @ e)[?b := PlainCell gs])) (map snd fs) (map snd gs)"
          and clf: "cloning H (new @ ?st0) ((?h0 @ e)[?b := PlainCell gs])"
          and cp: "\<forall>p \<in> set new. length ?h0 \<le> snd p
                  \<and> copied H (new @ ?st0) ((?h0 @ e)[?b := PlainCell gs]) p"
          by auto
        have hf: "(?h0 @ e)[?b := PlainCell gs] = h @ (PlainCell gs # e)" by simp
        have st: "new @ ?st0 = (new @ [(a, ?b)]) @ st" by simp
        have res: "baseClone (Suc fuel) cloneCustomizerRef cloneInstance st outermost h x
                 = Some (Ref ?b, h @ (PlainCell gs # e), (new @ [(a, ?b)]) @ st)"
          using Ref ah ha PlainCell None r unfolding hf
          by (simp add: baseCloneBody_def customizer_temporal)
        from clf have "distinct (map fst (new @ ?st0))" by (rule cloning_distinct)
        hence "a \<notin> fst ` set new" by auto
        hence "map_of new a = None" by (simp add: map_of_eq_None_iff)
        hence "map_of (new @ ?st0) a = Some ?b" by (simp add: map_add_def)
        hence imx: "imageOf H ((new @ [(a, ?b)]) @ st) (h @ (PlainCell gs # e)) x (Ref ?b)"
          using Ref PlainCell by (simp add: imageOf_def)
        have cpe: "copied H ((new @ [(a, ?b)]) @ st) (h @ (PlainCell gs # e)) (a, ?b)"
          using PlainCell k im unfolding hf by (simp add: copied_def)
        have "\<forall>p \<in> set (new @ [(a, ?b)]). length h \<le> snd p
                \<and> copied H ((new @ [(a, ?b)]) @ st) (h @ (PlainCell gs # e)) p"
          using cp cpe unfolding hf by auto
        with res clf imx show ?thesis
          unfolding cloneOk_def hf st by blast
      qed
    next
      case (ArrayCell xs)
      show ?thesis
      proof (cases "map_of st a")
        case (Some c)
        let ?g = "ArrayCell (replicate (length xs) RUndefined)"
        have r: "baseClone (Suc fuel) cloneCustomizerRef cloneInstance st outermost h x
                 = Some (Ref c, h @ [?g], st)"
          using Ref ah ha ArrayCell Some by (simp add: baseCloneBody_def customizer_temporal)
        have "imageOf H st (h @ [?g]) x (Ref c)"
          using Ref ArrayCell Some by (simp add: imageOf_def)
        with r cloning_ext [OF cl, of "[?g]"] show ?thesis
          unfolding cloneOk_def
          by (intro exI [where x = "Ref c"] exI [where x = "[?g]"] exI [where x = "[]"]) simp
      next
        case None
        let ?b = "length h"
        let ?st0 = "(a, ?b) # st"
        let ?y0 = "replicate (length xs) RUndefined"
        let ?h0 = "h @ [ArrayCell ?y0]"
        have cl0: "cloning H ?st0 ?h0"
          using cl aL None by (rule cloning_push) (simp add: ArrayCell sameKind_def)
        have n0: "?n \<le> length ?st0" using fu by simp
        from closed_cell [OF cH aL] ArrayCell
        have okf: "list_all (okVal (length H)) xs"
          by (simp_all add: okCell_def)
        have "\<exists>e new gs. cloneElems (\<lambda>st h x. baseClone fuel cloneCustomizerRef cloneInstance st False h x)
                            ?st0 ?h0 ?b 0 xs
                        = Some ((?h0 @ e)[?b := ArrayCell (take 0 ?y0 @ gs)], new @ ?st0)
           \<and> list_all2 (imageOf H (new @ ?st0) ((?h0 @ e)[?b := ArrayCell (take 0 ?y0 @ gs)])) xs gs
           \<and> cloning H (new @ ?st0) ((?h0 @ e)[?b := ArrayCell (take 0 ?y0 @ gs)])
           \<and> (\<forall>p \<in> set new. length ?h0 \<le> snd p
                  \<and> copied H (new @ ?st0) ((?h0 @ e)[?b := ArrayCell (take 0 ?y0 @ gs)]) p)"
          by (rule elems_spec [where n = ?n, OF B cl0 n0 Lh _ _ okf]) simp_all
        then obtain e new gs where
          r: "cloneElems (\<lambda>st h x. baseClone fuel cloneCustomizerRef cloneInstance st False h x)
                ?st0 ?h0 ?b 0 xs = Some ((?h0 @ e)[?b := ArrayCell gs], new @ ?st0)"
          and im: "list_all2 (imageOf H (new @ ?st0) ((?h0 @ e)[?b := ArrayCell gs])) xs gs"
          and clf: "cloning H (new @ ?st0) ((?h0 @ e)[?b := ArrayCell gs])"
          and cp: "\<forall>p \<in> set new. length ?h0 \<le> snd p
                  \<and> copied H (new @ ?st0) ((?h0 @ e)[?b := ArrayCell gs]) p"
          by auto
        have hf: "(?h0 @ e)[?b := ArrayCell gs] = h @ (ArrayCell gs # e)" by simp
        have st: "new @ ?st0 = (new @ [(a, ?b)]) @ st" by simp
        have res: "baseClone (Suc fuel) cloneCustomizerRef cloneInstance st outermost h x
                 = Some (Ref ?b, h @ (ArrayCell gs # e), (new @ [(a, ?b)]) @ st)"
          using Ref ah ha ArrayCell None r unfolding hf
          by (simp add: baseCloneBody_def customizer_temporal)
        from clf have "distinct (map fst (new @ ?st0))" by (rule cloning_distinct)
        hence "a \<notin> fst ` set new" by auto
        hence "map_of new a = None" by (simp add: map_of_eq_None_iff)
        hence "map_of (new @ ?st0) a = Some ?b" by (simp add: map_add_def)
        hence imx: "imageOf H ((new @ [(a, ?b)]) @ st) (h @ (ArrayCell gs # e)) x (Ref ?b)"
          using Ref ArrayCell by (simp add: imageOf_def)
        have cpe: "copied H ((new @ [(a, ?b)]) @ st) (h @ (ArrayCell gs # e)) (a, ?b)"
          using ArrayCell im unfolding hf by (simp add: copied_def)
        have "\<forall>p \<in> set (new @ [(a, ?b)]). length h \<le> snd p
                \<and> copied H ((new @ [(a, ?b)]) @ st) (h @ (ArrayCell gs # e)) p"
          using cp cpe unfolding hf by auto
        with res clf imx show ?thesis
          unfolding cloneOk_def hf st by blast
      qed
    qed
  qed
qed

lemma closed_children:
  assumes "closed H" and "a < length H"
  shows "H ! a = PlainCell fs \<Longrightarrow> list_all (okVal (length H)) (map snd fs)"
    and "H ! a = ArrayCell xs \<Longrightarrow> list_all (okVal (length H)) xs"
  using closed_cell [OF assms] by (simp_all add: okCell_def)

lemma abs_frame:
  assumes "closed H" and "take (length H) h = H" and "length H \<le> length h"
  shows "okVal (length H) x \<Longrightarrow> absVal n h x = absVal n H x"
proof (induction n arbitrary: x)
  case 0
  show ?case by (cases x) simp_all
next
  case (Suc n)
  show ?case
  proof (cases x)
    case (Ref a)
    with Suc.prems have aL: "a < length H" by (simp add: okVal_def)
    hence "take (length H) h ! a = h ! a" by simp
    hence ha: "h ! a = H ! a" using assms(2) by simp
    have ah: "a < length h" using aL assms(3) by simp
    show ?thesis
    proof (cases "H ! a")
      case (PlainCell fs)
      from closed_children(1) [OF assms(1) aL PlainCell]
      have "\<forall>p \<in> set fs. absVal n h (snd p) = absVal n H (snd p)"
        using Suc.IH by (auto simp: list_all_iff)
      hence "map (\<lambda>(k, x). (k, absVal n h x)) fs = map (\<lambda>(k, x). (k, absVal n H x)) fs"
        by (intro map_cong) auto
      thus ?thesis using Ref aL ah ha PlainCell by simp
    next
      case (ArrayCell xs)
      from closed_children(2) [OF assms(1) aL ArrayCell]
      have "map (absVal n h) xs = map (absVal n H) xs"
        using Suc.IH by (intro map_cong) (auto simp: list_all_iff)
      thus ?thesis using Ref aL ah ha ArrayCell by simp
    qed (insert Ref aL ah ha, simp_all)
  qed simp_all
qed

lemma map_pair_eq:
  "map fst gs = map fst fs \<Longrightarrow> list_all2 (\<lambda>x y. f y = g x) (map snd fs) (map snd gs) \<Longrightarrow>
     map (\<lambda>(k, x). (k, f x)) gs = map (\<lambda>(k, x). (k, g x)) fs"
proof (induction gs arbitrary: fs)
  case Nil
  then show ?case by simp
next
  case (Cons p gs)
  then obtain q fs' where fs: "fs = q # fs'" by (cases fs) auto
  with Cons.prems have "fst p = fst q" "f (snd p) = g (snd q)"
    "map fst gs = map fst fs'" "list_all2 (\<lambda>x y. f y = g x) (map snd fs') (map snd gs)"
    by simp_all
  with Cons.IH [of fs'] show ?case unfolding fs by (cases p; cases q) simp
qed

lemma abs_image:
  assumes cH: "closed H" and cl: "cloning H st h" and cp: "\<forall>p \<in> set st. copied H st h p"
  shows "imageOf H st h x y \<Longrightarrow> okVal (length H) x \<Longrightarrow> absVal n h y = absVal n H x"
proof (induction n arbitrary: x y)
  case 0
  show ?case
  proof (cases x)
    case (Ref a)
    with "0.prems"(1) show ?thesis
      by (cases "H ! a"; cases y)
         (auto simp: imageOf_def temporalAt_def split: option.splits)
  qed (insert "0.prems"(1), simp_all add: imageOf_def)
next
  case (Suc n)
  show ?case
  proof (cases x)
    case (Ref a)
    with Suc.prems(2) have aL: "a < length H" by (simp add: okVal_def)
    have ha: "h ! a = H ! a" using cl aL by (rule cloning_nth)
    from cl have Lh: "length H \<le> length h" by (simp add: cloning_def)
    show ?thesis
    proof (cases "H ! a")
      case (PlainCell fs)
      with Suc.prems(1) Ref obtain b where m: "map_of st a = Some b" and y: "y = Ref b"
        by (auto simp: imageOf_def split: option.splits)
      from m have "(a, b) \<in> set st" by (rule map_of_SomeD)
      with cp have "copied H st h (a, b)" by blast
      with PlainCell obtain gs where hb: "h ! b = PlainCell gs" and k: "map fst gs = map fst fs"
        and im: "list_all2 (imageOf H st h) (map snd fs) (map snd gs)"
        by (auto simp: copied_def split: cell.splits)
      from cloning_entry [OF cl m] have bh: "b < length h" by simp
      from closed_children(1) [OF cH aL PlainCell]
      have ok: "list_all (okVal (length H)) (map snd fs)" .
      have "list_all2 (\<lambda>x y. absVal n h y = absVal n H x) (map snd fs) (map snd gs)"
        using im ok Suc.IH
        by (auto simp: list_all2_conv_all_nth list_all_length)
      from map_pair_eq [OF k this]
      show ?thesis using Ref y aL bh hb PlainCell by simp
    next
      case (ArrayCell xs)
      with Suc.prems(1) Ref obtain b where m: "map_of st a = Some b" and y: "y = Ref b"
        by (auto simp: imageOf_def split: option.splits)
      from m have "(a, b) \<in> set st" by (rule map_of_SomeD)
      with cp have "copied H st h (a, b)" by blast
      with ArrayCell obtain ys where hb: "h ! b = ArrayCell ys"
        and im: "list_all2 (imageOf H st h) xs ys"
        by (auto simp: copied_def split: cell.splits)
      from cloning_entry [OF cl m] have bh: "b < length h" by simp
      from closed_children(2) [OF cH aL ArrayCell]
      have ok: "list_all (okVal (length H)) xs" .
      have "map (absVal n h) ys = map (absVal n H) xs"
        using im ok Suc.IH
        by (intro nth_equalityI) (auto simp: list_all2_conv_all_nth list_all_length)
      thus ?thesis using Ref y aL bh hb ArrayCell by simp
    next
      case (DateCell t)
      with Suc.prems(1) Ref show ?thesis
        using aL by (cases y) (auto simp: imageOf_def temporalAt_def)
    next
      case (MomentCell t)
      with Suc.prems(1) Ref show ?thesis
        using aL by (cases y) (auto simp: imageOf_def temporalAt_def)
    next
      case (FunctionCell f)
      with Suc.prems(1) Ref show ?thesis
        using aL ha Lh by (auto simp: imageOf_def)
    qed
  qed (insert Suc.prems(1), simp_all add: imageOf_def)
qed

lemma sep_image:
  assumes cH: "closed H" and cl: "cloning H st h" and cp: "\<forall>p \<in> set st. copied H st h p"
  shows "imageOf H st h x y \<Longrightarrow> okVal (length H) x \<Longrightarrow> separate (length H) n h y"
proof (induction n arbitrary: x y)
  case 0
  show ?case by simp
next
  case (Suc n)
  show ?case
  proof (cases x)
    case (Ref a)
    with Suc.prems(2) have aL: "a < length H" by (simp add: okVal_def)
    have ha: "h ! a = H ! a" using cl aL by (rule cloning_nth)
    from cl have Lh: "length H \<le> length h" by (simp add: cloning_def)
    show ?thesis
    proof (cases "H ! a")
      case (PlainCell fs)
      with Suc.prems(1) Ref obtain b where m: "map_of st a = Some b" and y: "y = Ref b"
        by (auto simp: imageOf_def split: option.splits)
      from m have "(a, b) \<in> set st" by (rule map_of_SomeD)
      with cp have "copied H st h (a, b)" by blast
      with PlainCell obtain gs where hb: "h ! b = PlainCell gs"
        and im: "list_all2 (imageOf H st h) (map snd fs) (map snd gs)"
        by (auto simp: copied_def split: cell.splits)
      from cloning_entry [OF cl m] have bh: "b < length h" and Lb: "length H \<le> b" by simp_all
      from closed_children(1) [OF cH aL PlainCell]
      have ok: "list_all (okVal (length H)) (map snd fs)" .
      have "list_all (separate (length H) n h) (map snd gs)"
        using im ok Suc.IH
        by (auto simp: list_all2_conv_all_nth list_all_length)
      thus ?thesis using y bh Lb hb by simp
    next
      case (ArrayCell xs)
      with Suc.prems(1) Ref obtain b where m: "map_of st a = Some b" and y: "y = Ref b"
        by (auto simp: imageOf_def split: option.splits)
      from m have "(a, b) \<in> set st" by (rule map_of_SomeD)
      with cp have "copied H st h (a, b)" by blast
      with ArrayCell obtain ys where hb: "h ! b = ArrayCell ys"
        and im: "list_all2 (imageOf H st h) xs ys"
        by (auto simp: copied_def split: cell.splits)
      from cloning_entry [OF cl m] have bh: "b < length h" and Lb: "length H \<le> b" by simp_all
      from closed_children(2) [OF cH aL ArrayCell]
      have ok: "list_all (okVal (length H)) xs" .
      have "list_all (separate (length H) n h) ys"
        using im ok Suc.IH
        by (auto simp: list_all2_conv_all_nth list_all_length)
      thus ?thesis using y bh Lb hb by simp
    next
      case (DateCell t)
      with Suc.prems(1) Ref show ?thesis
        by (cases y) (auto simp: imageOf_def temporalAt_def)
    next
      case (MomentCell t)
      with Suc.prems(1) Ref show ?thesis
        by (cases y) (auto simp: imageOf_def temporalAt_def)
    next
      case (FunctionCell f)
      with Suc.prems(1) Ref show ?thesis
        using aL ha Lh by (auto simp: imageOf_def)
    qed
  qed (insert Suc.prems(1), simp_all add: imageOf_def)
qed

lemma primitive_clone:
  "\<not> isRef x \<Longrightarrow> baseClone (Suc fuel) cloneCustomizerRef cloneInstance st outermost h x = Some (x, h, st)"
  by (cases x) (simp_all add: baseCloneBody_def customizer_primitive)

lemma image_isRef:
  "imageOf H st h x y \<Longrightarrow> isRef x \<Longrightarrow> isRef y"
  by (cases x; cases y)
     (auto simp: imageOf_def temporalAt_def split: cell.splits option.splits)

text \<open>
  C9. Let the heap be closed, shared and circular structures included, the committed
  state allocated and not a function, and no draft pending (after a flush the draft is
  null). With more fuel than the heap has cells, \<^verbatim>\<open>nextState\<close> returns, whatever
  lodash makes of a moment by itself: it returns a clone of the committed state and
  keeps it as the draft. Read to any depth, the clone stands for the same tree as the
  committed state, dates as dates and moments as moments; every object of it,
  functions apart, is new, so no write into what the call allocated changes what the
  committed state stands for. The next call returns the same draft on the same heap,
  and so does every call on a draft that has been edited.
\<close>

theorem nextStateRef_clones_once:
  assumes wf: "closed h"
      and st: "okVal (length h) (stateRef s)"
      and nofun: "\<not> isFunctionRef h (stateRef s)"
      and flushed: "draftRef s = RNull"
      and fuel: "length h < fuel"
  shows "\<exists>c e. nextStateRef fuel cloneInstance h s = Some (c, h @ e, s\<lparr>draftRef := c\<rparr>)
          \<and> (\<forall>n. absVal n (h @ e) c = absVal n h (stateRef s))
          \<and> (\<forall>n. separate (length h) n (h @ e) c)
          \<and> (\<forall>n a w. length h \<le> a \<longrightarrow>
                absVal n ((h @ e)[a := w]) (stateRef s) = absVal n h (stateRef s))
          \<and> nextStateRef fuel cloneInstance (h @ e) (s\<lparr>draftRef := c\<rparr>)
              = Some (c, h @ e, s\<lparr>draftRef := c\<rparr>)
          \<and> (\<forall>m h2 d. truthyRef d \<longrightarrow>
                nextStateRef m cloneInstance h2 (s\<lparr>draftRef := d\<rparr>)
                  = Some (d, h2, s\<lparr>draftRef := d\<rparr>))"
proof -
  have c0: "cloning h [] h" by (simp add: cloning_def)
  from clone_spec [OF wf c0 st, of fuel True cloneInstance] fuel nofun
  obtain c e new where
    cl: "baseClone fuel cloneCustomizerRef cloneInstance [] True h (stateRef s) = Some (c, h @ e, new)"
    and cn: "cloning h new (h @ e)"
    and im: "imageOf h new (h @ e) (stateRef s) c"
    and cp: "\<forall>p \<in> set new. copied h new (h @ e) p"
    unfolding cloneOk_def by auto
  have first: "nextStateRef fuel cloneInstance h s = Some (c, h @ e, s\<lparr>draftRef := c\<rparr>)"
    using cl flushed by (simp add: nextStateRef_def cloneStateRef_def cloneDeepWithRef_def)
  have ab: "\<forall>n. absVal n (h @ e) c = absVal n h (stateRef s)"
    using abs_image [OF wf cn cp im st] by blast
  have sep: "\<forall>n. separate (length h) n (h @ e) c"
    using sep_image [OF wf cn cp im st] by blast
  have indep: "\<forall>n a w. length h \<le> a \<longrightarrow>
      absVal n ((h @ e)[a := w]) (stateRef s) = absVal n h (stateRef s)"
  proof (intro allI impI)
    fix n a w
    assume "length h \<le> a"
    hence "take (length h) ((h @ e)[a := w]) = h" by simp
    moreover have "length h \<le> length ((h @ e)[a := w])" by simp
    ultimately show "absVal n ((h @ e)[a := w]) (stateRef s) = absVal n h (stateRef s)"
      using abs_frame [OF wf _ _ st] by blast
  qed
  have again: "nextStateRef fuel cloneInstance (h @ e) (s\<lparr>draftRef := c\<rparr>)
                 = Some (c, h @ e, s\<lparr>draftRef := c\<rparr>)"
  proof (cases "truthyRef c")
    case True
    then show ?thesis by (simp add: nextStateRef_def)
  next
    case False
    then have nr: "\<not> isRef c" by (cases c) simp_all
    with image_isRef [OF im] have ns: "\<not> isRef (stateRef s)" by blast
    from fuel obtain f where f: "fuel = Suc f" by (cases fuel) simp_all
    from primitive_clone [OF ns, of f cloneInstance "[]" True h] cl
    have "c = stateRef s" and "e = []" unfolding f by simp_all
    with False primitive_clone [OF ns, of f cloneInstance "[]" True h] show ?thesis
      unfolding f by (simp add: nextStateRef_def cloneStateRef_def cloneDeepWithRef_def)
  qed
  have edits: "\<forall>m h2 d. truthyRef d \<longrightarrow>
      nextStateRef m cloneInstance h2 (s\<lparr>draftRef := d\<rparr>) = Some (d, h2, s\<lparr>draftRef := d\<rparr>)"
    by (simp add: nextStateRef_def)
  from first ab sep indep again edits show ?thesis by blast
qed

lemma nextStateRef_run:
  "nextStateRef (Suc (Suc (Suc (Suc (Suc 0))))) emptyInstance heap0 store0
     = Some (Ref 4,
             heap0 @ [PlainCell [(''when'', Ref 5), (''at'', Ref 6), (''tags'', Ref 7),
                                 (''again'', Ref 7), (''self'', Ref 4), (''n'', RNum 1)],
                      DateCell 5, MomentCell 7, ArrayCell [RStr ''a''],
                      ArrayCell [RUndefined], PlainCell []],
             store0\<lparr>draftRef := Ref 4\<rparr>)"
  by (simp add: nextStateRef_def cloneStateRef_def cloneDeepWithRef_def heap0_def store0_def
        baseCloneBody_def cloneCustomizerRef_def assignProp_def assignElem_def)

theorem nextStateRef_clones_once_witness:
  "nextStateRef (Suc (Suc (Suc (Suc (Suc 0))))) emptyInstance heap0 store0
     = Some (Ref 4, heap1, store0\<lparr>draftRef := Ref 4\<rparr>)
 \<and> absVal (Suc (Suc (Suc 0))) heap1 (Ref 4) = absVal (Suc (Suc (Suc 0))) heap0 (Ref 0)
 \<and> separate 4 (Suc (Suc (Suc 0))) heap1 (Ref 4)
 \<and> absVal (Suc (Suc (Suc 0))) (heap1[4 := PlainCell []]) (Ref 0)
      = absVal (Suc (Suc (Suc 0))) heap0 (Ref 0)
 \<and> nextStateRef (Suc (Suc (Suc (Suc (Suc 0))))) emptyInstance heap1 (store0\<lparr>draftRef := Ref 4\<rparr>)
      = Some (Ref 4, heap1, store0\<lparr>draftRef := Ref 4\<rparr>)
 \<and> nextStateRef 0 emptyInstance [] (store0\<lparr>draftRef := Ref 4\<rparr>)
      = Some (Ref 4, [], store0\<lparr>draftRef := Ref 4\<rparr>)"
proof -
  have a: "closed heap0"
    by (simp add: heap0_def closed_def okCell_def okVal_def)
  have b: "okVal (length heap0) (stateRef store0)"
    by (simp add: heap0_def store0_def okVal_def)
  have c: "\<not> isFunctionRef heap0 (stateRef store0)"
    by (simp add: heap0_def store0_def isFunctionRef_def)
  have d: "draftRef store0 = RNull"
    by (simp add: store0_def)
  have f: "length heap0 < Suc (Suc (Suc (Suc (Suc 0))))"
    by (simp add: heap0_def)
  have l: "length heap0 = 4" by (simp add: heap0_def)
  have s: "stateRef store0 = Ref 0" by (simp add: store0_def)
  from nextStateRef_clones_once [OF a b c d f, of emptyInstance] obtain c e where
    1: "nextStateRef (Suc (Suc (Suc (Suc (Suc 0))))) emptyInstance heap0 store0
          = Some (c, heap0 @ e, store0\<lparr>draftRef := c\<rparr>)"
    and 2: "\<forall>n. absVal n (heap0 @ e) c = absVal n heap0 (stateRef store0)"
    and 3: "\<forall>n. separate (length heap0) n (heap0 @ e) c"
    and 4: "\<forall>n a w. length heap0 \<le> a \<longrightarrow>
              absVal n ((heap0 @ e)[a := w]) (stateRef store0) = absVal n heap0 (stateRef store0)"
    and 5: "nextStateRef (Suc (Suc (Suc (Suc (Suc 0))))) emptyInstance (heap0 @ e) (store0\<lparr>draftRef := c\<rparr>)
              = Some (c, heap0 @ e, store0\<lparr>draftRef := c\<rparr>)"
    and 6: "\<forall>m h2 d. truthyRef d \<longrightarrow>
              nextStateRef m emptyInstance h2 (store0\<lparr>draftRef := d\<rparr>)
                = Some (d, h2, store0\<lparr>draftRef := d\<rparr>)"
    by blast
  from 1 nextStateRef_run have c4: "c = Ref 4" and h1: "heap0 @ e = heap1"
    by (auto simp: heap1_def)
  have t: "truthyRef (Ref 4)" by simp
  have g: "length heap0 \<le> 4" by (simp add: l)
  from 1 have r1: "nextStateRef (Suc (Suc (Suc (Suc (Suc 0))))) emptyInstance heap0 store0
     = Some (Ref 4, heap1, store0\<lparr>draftRef := Ref 4\<rparr>)"
    unfolding c4 h1 .
  from 2 have r2: "absVal (Suc (Suc (Suc 0))) heap1 (Ref 4) = absVal (Suc (Suc (Suc 0))) heap0 (Ref 0)"
    unfolding c4 h1 s by blast
  from 3 have r3: "separate 4 (Suc (Suc (Suc 0))) heap1 (Ref 4)"
    unfolding c4 h1 l by blast
  from 4 g have r4: "absVal (Suc (Suc (Suc 0))) (heap1[4 := PlainCell []]) (Ref 0)
      = absVal (Suc (Suc (Suc 0))) heap0 (Ref 0)"
    unfolding c4 h1 s by blast
  from 5 have r5: "nextStateRef (Suc (Suc (Suc (Suc (Suc 0))))) emptyInstance heap1 (store0\<lparr>draftRef := Ref 4\<rparr>)
      = Some (Ref 4, heap1, store0\<lparr>draftRef := Ref 4\<rparr>)"
    unfolding c4 h1 .
  from 6 t have r6: "nextStateRef 0 emptyInstance [] (store0\<lparr>draftRef := Ref 4\<rparr>)
      = Some (Ref 4, [], store0\<lparr>draftRef := Ref 4\<rparr>)"
    by blast
  from r1 r2 r3 r4 r5 r6 show ?thesis by blast
qed


end
